theory Spec2Isabelle
  imports Main "HOL-Library.AList"
begin

section \<open>Checkpoint reconciliation of the solver (src/solver/\_solver.py)\<close>

text \<open>
  The development embeds the reconciliation logic of \<open>BaseSolver\<close>: the class-weight
  remapping (\<open>map_class_weights\<close>), the head adjustment (\<open>_adjust_head_parameters\<close>),
  the shape matcher (\<open>_matched_state\<close>), the tuning load (\<open>load_tuning_state\<close>) and
  the component restore (\<open>load_state_dict\<close>).

  Python exceptions are values of the type \<open>error\<close>; a function that may raise returns
  \<open>error + 'a\<close> with \<open>Inl\<close> for the exception.
\<close>

datatype error = KeyError | IndexError | RuntimeError | AttributeError | TypeError

subsection \<open>Tensors\<close>

text \<open>
  A tensor is its shape (what \<open>.size()\<close> and \<open>.shape\<close> return) and its elements in
  row-major order. The element type is a parameter: the solver only copies elements.
  Gradient tracking (\<open>requires_grad\<close>) and the element data type are not part of the
  model. A tensor is well formed when it holds as many elements as its shape says.
\<close>

datatype 'a tensor = Tensor (shape: "nat list") (data: "'a list")

definition wf_tensor :: "'a tensor \<Rightarrow> bool" where
  "wf_tensor t = (length (data t) = prod_list (shape t))"

text \<open>
  \<open>torch.Size\<close> is a tuple, so \<open>a.size() > b.size()\<close> is Python's lexicographic order
  on tuples: the first differing position decides, and a proper prefix is the smaller one.
\<close>

fun tuple_gt :: "nat list \<Rightarrow> nat list \<Rightarrow> bool" where
  "tuple_gt [] ys = False"
| "tuple_gt (x # xs) [] = True"
| "tuple_gt (x # xs) (y # ys) = (y < x \<or> (x = y \<and> tuple_gt xs ys))"

text \<open>
  \<open>t[i]\<close> for a non-negative index: the \<open>i\<close>-th slice along the leading dimension.
  Indexing a 0-dimensional tensor, or past the leading dimension, raises \<open>IndexError\<close>.
\<close>

definition get_row :: "'a tensor \<Rightarrow> nat \<Rightarrow> error + 'a tensor" where
  "get_row t i =
     (case shape t of
        [] \<Rightarrow> Inl IndexError
      | d # ds \<Rightarrow>
          if i < d
          then Inr (Tensor ds (take (prod_list ds) (drop (i * prod_list ds) (data t))))
          else Inl IndexError)"

text \<open>
  \<open>t[i] = v\<close> copies \<open>v\<close> into the slice. When the shapes are equal the elements are
  copied as they are; otherwise torch drops the leading dimensions of size 1 of \<open>v\<close> and
  broadcasts it to the shape of the slice (dimensions aligned at the right, a dimension
  of size 1 repeated), and raises \<open>RuntimeError\<close> when that is impossible.
\<close>

fun slicePrefix1s :: "nat list \<Rightarrow> nat list" where
  "slicePrefix1s [] = []"
| "slicePrefix1s (d # ds) = (if d = 1 then slicePrefix1s ds else d # ds)"

definition chunks :: "nat \<Rightarrow> nat \<Rightarrow> 'a list \<Rightarrow> 'a list list" where
  "chunks k n xs = map (\<lambda>i. take n (drop (i * n) xs)) [0..<k]"

fun expand :: "nat list \<Rightarrow> nat list \<Rightarrow> 'a list \<Rightarrow> 'a list option" where
  "expand [] src xs = (if src = [] then Some xs else None)"
| "expand (d # dst) src xs =
     (if length src \<le> length dst
      then map_option (\<lambda>ys. concat (replicate d ys)) (expand dst src xs)
      else case src of
             [] \<Rightarrow> None
           | s # src' \<Rightarrow>
               if length src' \<noteq> length dst then None
               else if s = d
               then map_option concat
                      (those (map (\<lambda>c. expand dst src' c) (chunks d (prod_list src') xs)))
               else if s = 1
               then map_option (\<lambda>ys. concat (replicate d ys)) (expand dst src' xs)
               else None)"

definition copy_to :: "nat list \<Rightarrow> 'a tensor \<Rightarrow> 'a list option" where
  "copy_to ds v =
     (if shape v = ds then Some (data v)
      else expand ds (slicePrefix1s (shape v)) (data v))"

definition set_row :: "'a tensor \<Rightarrow> nat \<Rightarrow> 'a tensor \<Rightarrow> error + 'a tensor" where
  "set_row t i v =
     (case shape t of
        [] \<Rightarrow> Inl IndexError
      | d # ds \<Rightarrow>
          if i < d
          then (case copy_to ds v of
                  None \<Rightarrow> Inl RuntimeError
                | Some xs \<Rightarrow>
                    Inr (Tensor (d # ds)
                           (take (i * prod_list ds) (data t) @ xs @
                            drop ((i + 1) * prod_list ds) (data t))))
          else Inl IndexError)"

subsection \<open>The correspondence table and \<open>map_class_weights\<close>\<close>

definition obj365_ids :: "nat list" where
  "obj365_ids =
     [0, 46, 5, 58, 114, 55, 116, 65, 21, 40, 176, 127, 249, 24, 56, 139, 92, 78, 99, 96,
      144, 295, 178, 180, 38, 39, 13, 43, 120, 219, 148, 173, 165, 154, 137, 113, 145, 146,
      204, 8, 35, 10, 88, 84, 93, 26, 112, 82, 265, 104, 141, 152, 234, 143, 150, 97, 2,
      50, 25, 75, 98, 153, 37, 73, 115, 132, 106, 61, 163, 134, 277, 81, 133, 18, 94, 30,
      169, 70, 328, 226]"

text \<open>
  The two loops of \<open>map_class_weights\<close> over \<open>enumerate(self.obj365_ids)\<close>. The right-hand
  side is read first, then the row of \<open>adjusted_tensor\<close> is written; the first exception
  ends the loop.
\<close>

fun contract_rows :: "(nat \<times> nat) list \<Rightarrow> 'a tensor \<Rightarrow> 'a tensor \<Rightarrow> error + 'a tensor" where
  "contract_rows [] pretrain_tensor adjusted_tensor = Inr adjusted_tensor"
| "contract_rows ((coco_id, obj_id) # rest) pretrain_tensor adjusted_tensor =
     (case get_row pretrain_tensor (obj_id + 1) of
        Inl e \<Rightarrow> Inl e
      | Inr r \<Rightarrow>
          (case set_row adjusted_tensor coco_id r of
             Inl e \<Rightarrow> Inl e
           | Inr a \<Rightarrow> contract_rows rest pretrain_tensor a))"

fun expand_rows :: "(nat \<times> nat) list \<Rightarrow> 'a tensor \<Rightarrow> 'a tensor \<Rightarrow> error + 'a tensor" where
  "expand_rows [] pretrain_tensor adjusted_tensor = Inr adjusted_tensor"
| "expand_rows ((coco_id, obj_id) # rest) pretrain_tensor adjusted_tensor =
     (case get_row pretrain_tensor coco_id of
        Inl e \<Rightarrow> Inl e
      | Inr r \<Rightarrow>
          (case set_row adjusted_tensor (obj_id + 1) r of
             Inl e \<Rightarrow> Inl e
           | Inr a \<Rightarrow> expand_rows rest pretrain_tensor a))"

text \<open>
  \<open>map_class_weights\<close>. The result is \<open>Some\<close> tensor, or \<open>None\<close> for Python's \<open>None\<close>,
  which the caller tests for. The clone of \<open>cur_tensor\<close> is a fresh value, so the loops
  change neither argument.
\<close>

definition map_class_weights :: "'a tensor \<Rightarrow> 'a tensor \<Rightarrow> error + 'a tensor option" where
  "map_class_weights cur_tensor pretrain_tensor =
     (if shape pretrain_tensor = shape cur_tensor then Inr (Some pretrain_tensor)
      else
        (let adjusted_tensor = cur_tensor in
         if tuple_gt (shape pretrain_tensor) (shape cur_tensor)
         then (case contract_rows (enumerate 0 obj365_ids) pretrain_tensor adjusted_tensor of
                 Inl e \<Rightarrow> Inl e
               | Inr a \<Rightarrow> Inr (Some a))
         else (case expand_rows (enumerate 0 obj365_ids) pretrain_tensor adjusted_tensor of
                 Inl e \<Rightarrow> Inl e
               | Inr a \<Rightarrow> Inr (Some a))))"

subsection \<open>Parameter mappings and \<open>_matched_state\<close>\<close>

text \<open>
  A Python \<open>dict\<close> keeps its keys in insertion order, so a parameter mapping is an
  association list; a well-formed one has no key twice. \<open>k in d\<close> and \<open>d[k]\<close> are
  \<open>map_of d k\<close>, \<open>d[k] = v\<close> is \<open>AList.update\<close> (the entry is replaced where it
  stands, a new key goes to the end) and \<open>del d[k]\<close> is \<open>AList.delete\<close>.
\<close>

type_synonym 'a state_dict = "(string \<times> 'a tensor) list"

record infos =
  missed :: "string list"
  unmatched :: "string list"

text \<open>The loop of \<open>_matched_state\<close> over \<open>state.items()\<close>, with its three accumulators.\<close>

fun matched_loop ::
  "'a state_dict \<Rightarrow> 'a state_dict \<Rightarrow> 'a state_dict \<times> string list \<times> string list
     \<Rightarrow> 'a state_dict \<times> string list \<times> string list" where
  "matched_loop [] params acc = acc"
| "matched_loop ((k, v) # items) params (matched, missed_list, unmatched_list) =
     (case map_of params k of
        Some p \<Rightarrow>
          if shape v = shape p
          then matched_loop items params (AList.update k p matched, missed_list, unmatched_list)
          else matched_loop items params (matched, missed_list, unmatched_list @ [k])
      | None \<Rightarrow> matched_loop items params (matched, missed_list @ [k], unmatched_list))"

definition matched_state :: "'a state_dict \<Rightarrow> 'a state_dict \<Rightarrow> 'a state_dict \<times> infos" where
  "matched_state state params =
     (case matched_loop state params ([], [], []) of
        (matched, missed_list, unmatched_list) \<Rightarrow>
          (matched, \<lparr>missed = missed_list, unmatched = unmatched_list\<rparr>))"

subsection \<open>\<open>_adjust_head_parameters\<close>\<close>

definition denoising_key :: string where
  "denoising_key = ''decoder.denoising_class_embed.weight''"

text \<open>The two encoder names, then a weight and a bias name for each \<open>i\<close> in \<open>range(8)\<close>.\<close>

definition head_param_names :: "string list" where
  "head_param_names =
     [''decoder.enc_score_head.weight'', ''decoder.enc_score_head.bias''] @
     concat (map (\<lambda>i. [''decoder.dec_score_head.'' @ i @ ''.weight'',
                        ''decoder.dec_score_head.'' @ i @ ''.bias''])
               [''0'', ''1'', ''2'', ''3'', ''4'', ''5'', ''6'', ''7''])"

text \<open>
  The function changes the dictionary it is given (\<open>del\<close> and item assignment) and
  returns that same object. Its state is the content of that dictionary, the list
  \<open>adjusted_params\<close> and the lines printed. The model returns the state the call ends
  in together with the exception it raised, if any: after an exception the dictionary
  keeps every change made before it.
\<close>

record 'a adjust_state =
  pretrain_state_dict :: "'a state_dict"
  adjusted_params :: "string list"
  printed :: "string list"

definition cannot_adjust :: "string \<Rightarrow> string" where
  "cannot_adjust param_name =
     ''Cannot adjust parameter '' @ [CHR 0x27] @ param_name @ [CHR 0x27] @
     '' due to size mismatch.''"

fun adjust_loop ::
  "string list \<Rightarrow> 'a state_dict \<Rightarrow> 'a adjust_state \<Rightarrow> 'a adjust_state \<times> error option" where
  "adjust_loop [] cur_state_dict st = (st, None)"
| "adjust_loop (param_name # names) cur_state_dict st =
     (case map_of cur_state_dict param_name of
        None \<Rightarrow> adjust_loop names cur_state_dict st
      | Some cur_tensor \<Rightarrow>
          (case map_of (pretrain_state_dict st) param_name of
             None \<Rightarrow> adjust_loop names cur_state_dict st
           | Some pretrain_tensor \<Rightarrow>
               (case map_class_weights cur_tensor pretrain_tensor of
                  Inl e \<Rightarrow> (st, Some e)
                | Inr (Some adjusted_tensor) \<Rightarrow>
                    adjust_loop names cur_state_dict
                      (st\<lparr>pretrain_state_dict :=
                            AList.update param_name adjusted_tensor (pretrain_state_dict st),
                          adjusted_params := adjusted_params st @ [param_name]\<rparr>)
                | Inr None \<Rightarrow>
                    adjust_loop names cur_state_dict
                      (st\<lparr>printed := printed st @ [cannot_adjust param_name]\<rparr>))))"

definition adjust_head_parameters ::
  "'a state_dict \<Rightarrow> 'a state_dict \<Rightarrow> 'a adjust_state \<times> error option" where
  "adjust_head_parameters cur_state_dict pretrain =
     (let st = \<lparr>pretrain_state_dict = pretrain, adjusted_params = [], printed = []\<rparr> in
      case map_of pretrain denoising_key of
        None \<Rightarrow> (st, Some KeyError)
      | Some p \<Rightarrow>
          (case map_of cur_state_dict denoising_key of
             None \<Rightarrow> (st, Some KeyError)
           | Some c \<Rightarrow>
               adjust_loop head_param_names cur_state_dict
                 (if shape p \<noteq> shape c
                  then st\<lparr>pretrain_state_dict := AList.delete denoising_key pretrain\<rparr>
                  else st)))"

subsection \<open>Checkpoints and \<open>load_tuning_state\<close>\<close>

text \<open>
  A checkpoint is a mapping from names to entries: \<open>None\<close>, a number (\<open>last_epoch\<close>), a
  parameter mapping (\<open>model\<close>), or a nested mapping (\<open>ema\<close>, with its \<open>module\<close>; an
  optimizer's state). Reading the file or the URL is outside the model: the functions
  take the checkpoint that \<open>torch.load\<close> returned.
\<close>

datatype 'a blob =
    NoneV
  | Num int
  | Params "'a state_dict"
  | Dict "(string \<times> 'a blob) list"

type_synonym 'a checkpoint = "(string \<times> 'a blob) list"

text \<open>
  The choice of the pretrained mapping: \<open>state['ema']['module']\<close> when there is an
  \<open>ema\<close> entry, \<open>state['model']\<close> otherwise. A missing key raises \<open>KeyError\<close>. An entry
  that is no parameter mapping is not a checkpoint of this program; the model reports it
  as \<open>TypeError\<close>.
\<close>

definition select_pretrain :: "'a checkpoint \<Rightarrow> error + 'a state_dict" where
  "select_pretrain state =
     (case map_of state ''ema'' of
        Some ema \<Rightarrow>
          (case ema of
             Dict entries \<Rightarrow>
               (case map_of entries ''module'' of
                  None \<Rightarrow> Inl KeyError
                | Some (Params sd) \<Rightarrow> Inr sd
                | Some _ \<Rightarrow> Inl TypeError)
           | Params sd \<Rightarrow> (case map_of sd ''module'' of None \<Rightarrow> Inl KeyError | Some _ \<Rightarrow> Inl TypeError)
           | _ \<Rightarrow> Inl TypeError)
      | None \<Rightarrow>
          (case map_of state ''model'' of
             None \<Rightarrow> Inl KeyError
           | Some (Params sd) \<Rightarrow> Inr sd
           | Some _ \<Rightarrow> Inl TypeError))"

text \<open>
  \<open>module.load_state_dict(stat, strict=False)\<close> of torch: a parameter of the module
  whose key is in \<open>stat\<close> takes the value given there, the other parameters stay, keys
  of \<open>stat\<close> unknown to the module are ignored, and a value of another shape than the
  parameter raises \<open>RuntimeError\<close>.
\<close>

fun load_non_strict :: "'a state_dict \<Rightarrow> 'a state_dict \<Rightarrow> error + 'a state_dict" where
  "load_non_strict [] stat = Inr []"
| "load_non_strict ((k, v) # params) stat =
     (case map_of stat k of
        None \<Rightarrow> map_sum id (\<lambda>ps. (k, v) # ps) (load_non_strict params stat)
      | Some p \<Rightarrow>
          if shape p = shape v
          then map_sum id (\<lambda>ps. (k, p) # ps) (load_non_strict params stat)
          else Inl RuntimeError)"

text \<open>
  \<open>load_tuning_state\<close>, from the current parameters of the model
  (\<open>module.state_dict()\<close>) and the loaded checkpoint to the parameters of the model after
  the load and the report printed. In the \<open>except\<close> branch \<open>pretrain_state_dict\<close> names
  the dictionary that \<open>_adjust_head_parameters\<close> was changing when it raised, so the
  matcher reads the content that call left behind.
\<close>

definition load_tuning_state ::
  "'a state_dict \<Rightarrow> 'a checkpoint \<Rightarrow> error + ('a state_dict \<times> infos)" where
  "load_tuning_state module_state state =
     (case select_pretrain state of
        Inl e \<Rightarrow> Inl e
      | Inr pretrain \<Rightarrow>
          (case adjust_head_parameters module_state pretrain of
             (st, raised) \<Rightarrow>
               (case (case raised of
                        None \<Rightarrow> matched_state module_state (pretrain_state_dict st)
                      | Some e \<Rightarrow> matched_state module_state (pretrain_state_dict st)) of
                  (stat, report) \<Rightarrow>
                    (case load_non_strict module_state stat of
                       Inl e \<Rightarrow> Inl e
                     | Inr loaded \<Rightarrow> Inr (loaded, report)))))"

subsection \<open>\<open>remove_module_prefix\<close> and \<open>load_state_dict\<close>\<close>

text \<open>
  \<open>remove_module_prefix\<close> builds a new dictionary, entry by entry: a key that starts with
  \<open>module.\<close> loses its first seven characters. It works on any mapping with string keys.
\<close>

fun remove_prefix_loop :: "(string \<times> 'v) list \<Rightarrow> (string \<times> 'v) list \<Rightarrow> (string \<times> 'v) list" where
  "remove_prefix_loop [] new_state_dict = new_state_dict"
| "remove_prefix_loop ((k, v) # items) new_state_dict =
     remove_prefix_loop items
       (if take 7 k = ''module.''
        then AList.update (drop 7 k) v new_state_dict
        else AList.update k v new_state_dict)"

definition remove_module_prefix :: "(string \<times> 'v) list \<Rightarrow> (string \<times> 'v) list" where
  "remove_module_prefix state_dict = remove_prefix_loop state_dict []"

text \<open>
  An attribute of the solver (an entry of \<open>self.__dict__\<close>) is either a plain value,
  which has no \<open>load_state_dict\<close> (\<open>None\<close>, a number, a path, the configuration), or a
  component, which has \<open>state_dict\<close> and \<open>load_state_dict\<close>. A component is given by the
  state it holds and by whether it sits inside a distributed wrapper.
\<close>

datatype 'a attr = Plain "'a blob" | Comp bool "'a blob"

type_synonym 'a solver = "(string \<times> 'a attr) list"

text \<open>
  Modelled from the spec: the restore operation of a stateful component, that is
  \<open>dist_utils.de_parallel(v).load_state_dict(b)\<close>; the component classes and
  \<open>dist_utils\<close> are not under src/. The component is restored from the sub-blob
  (section 4.4), so afterwards it holds that sub-blob; the wrapper around it stays.
\<close>

fun restore_component :: "'a blob \<Rightarrow> 'a attr \<Rightarrow> 'a attr" where
  "restore_component b (Comp wrapped s) = Comp wrapped b"
| "restore_component b (Plain v) = Plain v"

text \<open>
  Modelled from the spec: the capture operation \<open>v.state_dict()\<close> of a component that
  was not unwrapped first. A distributed wrapper holds the component as its \<open>module\<close>, so
  every key of a wrapped model's parameter mapping comes with the prefix \<open>module.\<close>; this
  is the prefix \<open>remove_module_prefix\<close> takes away.
\<close>

fun state_dict_of :: "bool \<Rightarrow> 'a blob \<Rightarrow> 'a blob" where
  "state_dict_of True (Params sd) = Params (map (\<lambda>(k, v). (''module.'' @ k, v)) sd)"
| "state_dict_of wrapped s = s"

text \<open>
  \<open>remove_module_prefix(model.state_dict())\<close> calls \<open>.items()\<close> on what the model
  returned; a value that is no mapping raises \<open>AttributeError\<close>.
\<close>

fun stripped_state :: "'a blob \<Rightarrow> error + 'a blob" where
  "stripped_state (Params sd) = Inr (Params (remove_module_prefix sd))"
| "stripped_state (Dict entries) = Inr (Dict (remove_module_prefix entries))"
| "stripped_state NoneV = Inl AttributeError"
| "stripped_state (Num n) = Inl AttributeError"

text \<open>
  One round of the loop of \<open>load_state_dict\<close> over \<open>self.__dict__.items()\<close>, for the
  attribute named \<open>k\<close>. The state is the solver's attributes and the lines printed. The
  objects are changed in place, so the value for \<open>k\<close> and the model read by
  \<open>getattr(self, 'model', None)\<close> are the current ones.
\<close>

definition load_component ::
  "string \<Rightarrow> 'a checkpoint \<Rightarrow> 'a solver \<times> string list \<Rightarrow> error + ('a solver \<times> string list)" where
  "load_component k state x =
     (case x of (self, out) \<Rightarrow>
      (case map_of self k of
         Some (Comp wrapped s) \<Rightarrow>
           (case map_of state k of
              Some b \<Rightarrow>
                Inr (AList.update k (restore_component b (Comp wrapped s)) self,
                     out @ [''Load '' @ k @ ''.state_dict''])
            | None \<Rightarrow>
                if k = ''ema''
                then (case map_of self ''model'' of
                        None \<Rightarrow> Inr (self, out)
                      | Some (Plain NoneV) \<Rightarrow> Inr (self, out)
                      | Some (Plain _) \<Rightarrow> Inl AttributeError
                      | Some (Comp model_wrapped model_state) \<Rightarrow>
                          (case stripped_state (state_dict_of model_wrapped model_state) of
                             Inl e \<Rightarrow> Inl e
                           | Inr model_state_dict \<Rightarrow>
                               Inr (AList.update k
                                      (restore_component (Dict [(''module'', model_state_dict)])
                                         (Comp wrapped s)) self,
                                    out @ [''Load '' @ k @ ''.state_dict from model.state_dict''])))
                else Inr (self, out @ [''Not load '' @ k @ ''.state_dict'']))
       | _ \<Rightarrow> Inr (self, out)))"

fun load_components ::
  "string list \<Rightarrow> 'a checkpoint \<Rightarrow> 'a solver \<times> string list \<Rightarrow> error + ('a solver \<times> string list)" where
  "load_components [] state x = Inr x"
| "load_components (k # ks) state x =
     (case load_component k state x of
        Inl e \<Rightarrow> Inl e
      | Inr y \<Rightarrow> load_components ks state y)"

text \<open>
  \<open>load_state_dict\<close>: \<open>last_epoch\<close> first, then the loop over the attributes in the order
  of \<open>self.__dict__\<close>. The result is the solver after the call and the lines printed.
\<close>

definition load_state_dict ::
  "'a solver \<Rightarrow> 'a checkpoint \<Rightarrow> error + ('a solver \<times> string list)" where
  "load_state_dict self state =
     (case map_of state ''last_epoch'' of
        Some v \<Rightarrow>
          load_components (map fst (AList.update ''last_epoch'' (Plain v) self)) state
            (AList.update ''last_epoch'' (Plain v) self, [''Load last_epoch''])
      | None \<Rightarrow> load_components (map fst self) state (self, []))"

subsection \<open>The end-to-end scenario at concrete tensors\<close>

text \<open>
  A model whose encoder score head has 81 rows (weight of shape \<open>[81, 1]\<close>, bias of
  shape \<open>[81]\<close>, all zero) and a checkpoint whose \<open>model\<close> entry has the same head with
  366 rows (all seven). The denoising embedding has the same shape on both sides.
\<close>

definition scenario_model :: "nat state_dict" where
  "scenario_model =
     [(denoising_key, Tensor [1] [0]),
      (''decoder.enc_score_head.weight'', Tensor [81, 1] (replicate 81 0)),
      (''decoder.enc_score_head.bias'', Tensor [81] (replicate 81 0))]"

definition scenario_pretrained :: "nat state_dict" where
  "scenario_pretrained =
     [(denoising_key, Tensor [1] [9]),
      (''decoder.enc_score_head.weight'', Tensor [366, 1] (replicate 366 7)),
      (''decoder.enc_score_head.bias'', Tensor [366] (replicate 366 7))]"

definition scenario_checkpoint :: "nat checkpoint" where
  "scenario_checkpoint = [(''last_epoch'', Num 71), (''model'', Params scenario_pretrained)]"

section \<open>Properties\<close>

lemma length_obj365_ids: "length obj365_ids = 80"
  by (simp add: obj365_ids_def)


subsection \<open>The table\<close>

lemma distinct_obj365_ids: "distinct obj365_ids"
  by (simp add: obj365_ids_def)

lemma obj365_ids_bound: "\<forall>x\<in>set obj365_ids. x \<le> 328"
  by (simp add: obj365_ids_def)

lemma row_block_same:
  assumes "length xs = n" "i * n \<le> length ys"
  shows "take n (drop (i * n) (take (i * n) ys @ xs @ drop ((i + 1) * n) ys)) = xs"
  using assms by simp

lemma row_block_other:
  assumes "length xs = n" "(i + 1) * n \<le> length ys" "j \<noteq> i"
  shows "take n (drop (j * n) (take (i * n) ys @ xs @ drop ((i + 1) * n) ys))
         = take n (drop (j * n) ys)"
proof (cases "j < i")
  case True
  then have "Suc j \<le> i" by simp
  then have "Suc j * n \<le> i * n" by (rule mult_le_mono1)
  then have le: "j * n + n \<le> i * n" by simp
  have "i * n \<le> length ys" using assms(2) by simp
  with le show ?thesis by (simp add: take_drop min_def)
next
  case False
  with assms(3) have "i < j" by simp
  then have "Suc i \<le> j" by simp
  then have "Suc i * n \<le> j * n" by (rule mult_le_mono1)
  then have le: "i * n + n \<le> j * n" by simp
  then obtain k where k: "j * n = i * n + n + k" by (metis le_Suc_ex)
  have l: "i * n \<le> length ys" using assms(2) by simp
  show ?thesis using assms(1) l k by (simp add: min_def add.commute add.left_commute)
qed

lemma set_row_ok:
  assumes "wf_tensor t" "shape t = d # ds" "i < d" "shape v = ds" "wf_tensor v"
  shows "\<exists>t'. set_row t i v = Inr t' \<and> wf_tensor t' \<and> shape t' = d # ds
           \<and> get_row t' i = Inr v
           \<and> (\<forall>j. j \<noteq> i \<longrightarrow> get_row t' j = get_row t j)"
proof -
  define n where "n = prod_list ds"
  define t' where "t' = Tensor (d # ds) (take (i * n) (data t) @ data v @ drop ((i + 1) * n) (data t))"
  have lv: "length (data v) = n"
    using assms(4,5) by (simp add: wf_tensor_def n_def)
  have lt: "length (data t) = d * n"
    using assms(1,2) by (simp add: wf_tensor_def n_def)
  have "Suc i \<le> d" using assms(3) by simp
  then have "Suc i * n \<le> d * n" by (rule mult_le_mono1)
  then have le1: "(i + 1) * n \<le> length (data t)" using lt by simp
  then have le0: "i * n \<le> length (data t)" by simp
  have s: "set_row t i v = Inr t'"
    using assms(2,3,4) by (simp add: set_row_def copy_to_def t'_def n_def)
  have "length (take (i * n) (data t)) = i * n" using le0 by simp
  moreover have "length (drop ((i + 1) * n) (data t)) = d * n - (i * n + n)"
    using lt by simp
  moreover have "i * n + n \<le> d * n" using le1 lt by simp
  ultimately have "length (data t') = d * n"
    using lv by (simp add: t'_def del: length_take length_drop)
  then have w: "wf_tensor t'" by (simp add: wf_tensor_def t'_def n_def)
  have same: "get_row t' i = Inr v"
    using assms(3,4) row_block_same [OF lv le0]
    by (cases v) (simp add: get_row_def t'_def n_def)
  have other: "get_row t' j = get_row t j" if "j \<noteq> i" for j
    using assms(2) row_block_other [OF lv le1 that]
    by (simp add: get_row_def t'_def n_def)
  show ?thesis using s w same other by (auto simp: t'_def)
qed

lemma get_row_ok:
  assumes "wf_tensor t" "shape t = d # ds" "i < d"
  shows "\<exists>r. get_row t i = Inr r \<and> shape r = ds \<and> wf_tensor r"
proof -
  have "Suc i \<le> d" using assms(3) by simp
  then have "Suc i * prod_list ds \<le> d * prod_list ds" by (rule mult_le_mono1)
  then have "i * prod_list ds + prod_list ds \<le> length (data t)"
    using assms(1,2) by (simp add: wf_tensor_def)
  then show ?thesis using assms(2,3) by (simp add: get_row_def wf_tensor_def)
qed

lemma get_row_out_of_range:
  assumes "shape t = d # ds" "shape t' = d # ds'" "d \<le> j"
  shows "get_row t j = Inl IndexError" "get_row t' j = Inl IndexError"
  using assms by (simp_all add: get_row_def)

lemma contract_rows_ok:
  assumes "wf_tensor p" "shape p = m # sh"
  shows "wf_tensor a \<Longrightarrow> shape a = n # sh \<Longrightarrow> list_all (\<lambda>(c, ob). c < n \<and> ob + 1 < m) ps \<Longrightarrow>
         distinct (map fst ps) \<Longrightarrow>
         \<exists>r. contract_rows ps p a = Inr r \<and> wf_tensor r \<and> shape r = n # sh \<and>
             (\<forall>j. get_row r j =
                   (case map_of ps j of Some ob \<Rightarrow> get_row p (ob + 1) | None \<Rightarrow> get_row a j))"
proof (induction ps arbitrary: a)
  case Nil
  then show ?case by simp
next
  case (Cons x ps)
  obtain c ob where x: "x = (c, ob)" by (cases x)
  from Cons.prems x have c: "c < n" and ob: "ob + 1 < m"
    and rest: "list_all (\<lambda>(c, ob). c < n \<and> ob + 1 < m) ps"
    and dist: "distinct (map fst ps)" and notin: "c \<notin> fst ` set ps"
    by auto
  from get_row_ok [OF assms ob] obtain r where
    r: "get_row p (ob + 1) = Inr r" "shape r = sh" "wf_tensor r" by blast
  from set_row_ok [OF Cons.prems(1,2) c r(2,3)] obtain a' where
    a': "set_row a c r = Inr a'" "wf_tensor a'" "shape a' = n # sh" "get_row a' c = Inr r"
        "\<And>j. j \<noteq> c \<Longrightarrow> get_row a' j = get_row a j" by blast
  from Cons.IH [OF a'(2,3) rest dist] obtain res where
    res: "contract_rows ps p a' = Inr res" "wf_tensor res" "shape res = n # sh"
         "\<And>j. get_row res j =
                   (case map_of ps j of Some ob \<Rightarrow> get_row p (ob + 1) | None \<Rightarrow> get_row a' j)"
    by blast
  have none: "map_of ps c = None" using notin by (simp add: map_of_eq_None_iff)
  have "get_row res j =
          (case map_of (x # ps) j of Some ob \<Rightarrow> get_row p (ob + 1) | None \<Rightarrow> get_row a j)" for j
    using res(4) [of j] a'(4,5) none r(1) x by (cases "j = c") (simp_all split: option.split)
  moreover have "contract_rows (x # ps) p a = Inr res"
    using x r(1) a'(1) res(1) by simp
  ultimately show ?case using res(2,3) by blast
qed

lemma expand_rows_ok:
  assumes "wf_tensor p" "shape p = m # sh"
  shows "wf_tensor a \<Longrightarrow> shape a = n # sh \<Longrightarrow> list_all (\<lambda>(c, ob). c < m \<and> ob + 1 < n) ps \<Longrightarrow>
         distinct (map snd ps) \<Longrightarrow>
         \<exists>r. expand_rows ps p a = Inr r \<and> wf_tensor r \<and> shape r = n # sh \<and>
             (\<forall>j. get_row r j =
                   (case map_of (map (\<lambda>(c, ob). (ob + 1, c)) ps) j of
                      Some c \<Rightarrow> get_row p c | None \<Rightarrow> get_row a j))"
proof (induction ps arbitrary: a)
  case Nil
  then show ?case by simp
next
  case (Cons x ps)
  obtain c ob where x: "x = (c, ob)" by (cases x)
  from Cons.prems x have c: "c < m" and ob: "ob + 1 < n"
    and rest: "list_all (\<lambda>(c, ob). c < m \<and> ob + 1 < n) ps"
    and dist: "distinct (map snd ps)" and notin: "ob \<notin> snd ` set ps"
    by auto
  from get_row_ok [OF assms c] obtain r where
    r: "get_row p c = Inr r" "shape r = sh" "wf_tensor r" by blast
  from set_row_ok [OF Cons.prems(1,2) ob r(2,3)] obtain a' where
    a': "set_row a (ob + 1) r = Inr a'" "wf_tensor a'" "shape a' = n # sh"
        "get_row a' (ob + 1) = Inr r"
        "\<And>j. j \<noteq> ob + 1 \<Longrightarrow> get_row a' j = get_row a j" by blast
  from Cons.IH [OF a'(2,3) rest dist] obtain res where
    res: "expand_rows ps p a' = Inr res" "wf_tensor res" "shape res = n # sh"
         "\<And>j. get_row res j =
                   (case map_of (map (\<lambda>(c, ob). (ob + 1, c)) ps) j of
                      Some c \<Rightarrow> get_row p c | None \<Rightarrow> get_row a' j)"
    by blast
  have "ob + 1 \<notin> fst ` set (map (\<lambda>(c, ob). (ob + 1, c)) ps)"
    using notin by (auto simp: image_iff)
  then have none: "map_of (map (\<lambda>(c, ob). (ob + 1, c)) ps) (ob + 1) = None"
    by (metis map_of_eq_None_iff)
  have "get_row res j =
          (case map_of (map (\<lambda>(c, ob). (ob + 1, c)) (x # ps)) j of
             Some c \<Rightarrow> get_row p c | None \<Rightarrow> get_row a j)" for j
    using res(4) [of j] a'(4,5) none r(1) x by (cases "j = ob + 1") (simp_all split: option.split)
  moreover have "expand_rows (x # ps) p a = Inr res"
    using x r(1) a'(1) res(1) by simp
  ultimately show ?case using res(2,3) by blast
qed


lemma map_of_enumerate0:
  "map_of (enumerate 0 xs) j = (if j < length xs then Some (xs ! j) else None)"
proof (cases "j < length xs")
  case True
  have "distinct (map fst (enumerate 0 xs))" by simp
  moreover have "(j, xs ! j) \<in> set (enumerate 0 xs)"
    using True by (simp add: in_set_enumerate_eq)
  ultimately have "map_of (enumerate 0 xs) j = Some (xs ! j)" by (rule map_of_is_SomeI)
  with True show ?thesis by simp
next
  case False
  then have "j \<notin> fst ` set (enumerate 0 xs)"
    by (auto simp: in_set_enumerate_eq)
  then have "map_of (enumerate 0 xs) j = None" by (metis map_of_eq_None_iff)
  with False show ?thesis by simp
qed

lemma map_fst_swapped:
  "map fst (map (\<lambda>(c, ob). (ob + 1, c)) (enumerate 0 xs)) = map (\<lambda>ob. ob + 1) (xs :: nat list)"
proof -
  have "map fst (map (\<lambda>(c, ob). (ob + 1, c)) ps) = map (\<lambda>ob. ob + 1) (map snd ps)"
    for ps :: "(nat \<times> nat) list"
    by (induction ps) auto
  from this [of "enumerate 0 xs"] show ?thesis by (simp only: map_snd_enumerate)
qed

lemma map_of_swapped_Some:
  assumes "distinct (xs :: nat list)" "c < length xs"
  shows "map_of (map (\<lambda>(c, ob). (ob + 1, c)) (enumerate 0 xs)) (xs ! c + 1) = Some c"
proof -
  have "distinct (map (\<lambda>ob. ob + 1) xs)"
    using assms(1) by (simp add: distinct_map inj_on_def)
  then have "distinct (map fst (map (\<lambda>(c, ob). (ob + 1, c)) (enumerate 0 xs)))"
    by (simp only: map_fst_swapped)
  moreover have "(c, xs ! c) \<in> set (enumerate 0 xs)"
    using assms(2) by (simp add: in_set_enumerate_eq)
  then have "(xs ! c + 1, c) \<in> set (map (\<lambda>(c, ob). (ob + 1, c)) (enumerate 0 xs))"
    by force
  ultimately show ?thesis by (rule map_of_is_SomeI)
qed

lemma map_of_swapped_None:
  assumes "j \<notin> (\<lambda>ob. ob + 1) ` set (xs :: nat list)"
  shows "map_of (map (\<lambda>(c, ob). (ob + 1, c)) (enumerate 0 xs)) j = None"
proof -
  have "fst ` set (map (\<lambda>(c, ob). (ob + 1, c)) (enumerate 0 xs)) = (\<lambda>ob. ob + 1) ` set xs"
    using map_fst_swapped [of xs] by (metis list.set_map)
  with assms show ?thesis by (metis map_of_eq_None_iff)
qed


lemma all_enumerate_bounds:
  assumes "length xs \<le> n" "\<forall>x\<in>set xs. x + 1 < m"
  shows "list_all (\<lambda>(c, ob). c < n \<and> ob + 1 < m) (enumerate 0 xs)"
  using assms by (auto simp: list_all_iff in_set_enumerate_eq)

lemma table_rows_in_range:
  assumes "330 \<le> m" "80 \<le> n"
  shows "list_all (\<lambda>(c, ob). c < n \<and> ob + 1 < m) (enumerate 0 obj365_ids)"
proof (rule all_enumerate_bounds)
  show "length obj365_ids \<le> n" using assms(2) by (simp add: length_obj365_ids)
  show "\<forall>x\<in>set obj365_ids. x + 1 < m" using obj365_ids_bound assms(1) by fastforce
qed

lemma table_rows_in_range_swapped:
  assumes "330 \<le> n" "80 \<le> m"
  shows "list_all (\<lambda>(c, ob). c < m \<and> ob + 1 < n) (enumerate 0 obj365_ids)"
  using table_rows_in_range [OF assms] .

lemma map_class_weights_same:
  "shape pre = shape cur \<Longrightarrow> map_class_weights cur pre = Inr (Some pre)"
  by (simp add: map_class_weights_def)

lemma map_class_weights_contract:
  assumes "wf_tensor cur" "wf_tensor pre" "shape cur = n # sh" "shape pre = m # sh"
    and "n < m" "80 \<le> n" "330 \<le> m"
  shows "\<exists>r. map_class_weights cur pre = Inr (Some r) \<and> wf_tensor r \<and> shape r = n # sh \<and>
           (\<forall>j. get_row r j =
                  (if j < 80 then get_row pre (obj365_ids ! j + 1) else get_row cur j))"
proof -
  have d: "distinct (map fst (enumerate 0 obj365_ids))" by simp
  from contract_rows_ok [OF assms(2,4) assms(1,3) table_rows_in_range [OF assms(7,6)] d]
  obtain r where r: "contract_rows (enumerate 0 obj365_ids) pre cur = Inr r" "wf_tensor r"
      "shape r = n # sh"
      "\<And>j. get_row r j = (case map_of (enumerate 0 obj365_ids) j of
                 Some ob \<Rightarrow> get_row pre (ob + 1) | None \<Rightarrow> get_row cur j)"
    by blast
  have "map_class_weights cur pre = Inr (Some r)"
    using assms(3,4,5) r(1) by (simp add: map_class_weights_def)
  moreover have "get_row r j =
      (if j < 80 then get_row pre (obj365_ids ! j + 1) else get_row cur j)" for j
    using r(4) [of j] by (simp add: map_of_enumerate0 length_obj365_ids)
  ultimately show ?thesis using r(2,3) by blast
qed

lemma map_class_weights_expand:
  assumes "wf_tensor cur" "wf_tensor pre" "shape cur = n # sh" "shape pre = m # sh"
    and "m < n" "80 \<le> m" "330 \<le> n"
  shows "\<exists>r. map_class_weights cur pre = Inr (Some r) \<and> wf_tensor r \<and> shape r = n # sh \<and>
           (\<forall>c<80. get_row r (obj365_ids ! c + 1) = get_row pre c) \<and>
           (\<forall>j. j \<notin> (\<lambda>ob. ob + 1) ` set obj365_ids \<longrightarrow> get_row r j = get_row cur j)"
proof -
  have d: "distinct (map snd (enumerate 0 obj365_ids))"
    by (simp add: distinct_obj365_ids)
  from expand_rows_ok [OF assms(2,4) assms(1,3) table_rows_in_range_swapped [OF assms(7,6)] d]
  obtain r where r: "expand_rows (enumerate 0 obj365_ids) pre cur = Inr r" "wf_tensor r"
      "shape r = n # sh"
      "\<And>j. get_row r j =
         (case map_of (map (\<lambda>(c, ob). (ob + 1, c)) (enumerate 0 obj365_ids)) j of
                 Some c \<Rightarrow> get_row pre c | None \<Rightarrow> get_row cur j)"
    by blast
  have "\<not> tuple_gt (shape pre) (shape cur)" using assms(3,4,5) by simp
  then have "map_class_weights cur pre = Inr (Some r)"
    using assms(3,4,5) r(1) by (simp add: map_class_weights_def)
  moreover have "get_row r (obj365_ids ! c + 1) = get_row pre c" if "c < 80" for c
  proof -
    have "c < length obj365_ids" using that by (simp add: length_obj365_ids)
    from map_of_swapped_Some [OF distinct_obj365_ids this]
    show ?thesis by (simp only: r(4) option.case)
  qed
  moreover have "get_row r j = get_row cur j" if "j \<notin> (\<lambda>ob. ob + 1) ` set obj365_ids" for j
    by (simp only: r(4) map_of_swapped_None [OF that] option.case)
  ultimately show ?thesis using r(2,3) by blast
qed

text \<open>
  Claim C1, as amended. \<open>map_class_weights\<close> returns the pretrained tensor itself when the
  two shapes are equal. For well-formed tensors with the same row shape: when the
  pretrained tensor has more rows, at least 330 of them, and the current one at least
  80, the result is the current tensor with row \<open>c\<close> replaced by the pretrained row
  \<open>table[c] + 1\<close> for every \<open>c < 80\<close> and every row from 80 on kept; when the current
  tensor has more rows, at least 330 of them, and the pretrained one at least 80, the
  result is the current tensor with row \<open>table[c] + 1\<close> replaced by the pretrained row
  \<open>c\<close> for every \<open>c < 80\<close> and every other row, row 0 among them, kept.
\<close>

theorem map_class_weights_remap:
  "(shape pre = shape cur \<longrightarrow> map_class_weights cur pre = Inr (Some pre)) \<and>
   (wf_tensor cur \<and> wf_tensor pre \<and> shape cur = n # sh \<and> shape pre = m # sh \<and>
    n < m \<and> 80 \<le> n \<and> 330 \<le> m \<longrightarrow>
      (\<exists>r. map_class_weights cur pre = Inr (Some r) \<and> shape r = shape cur \<and>
           (\<forall>c<80. get_row r c = get_row pre (obj365_ids ! c + 1)) \<and>
           (\<forall>j\<ge>80. get_row r j = get_row cur j))) \<and>
   (wf_tensor cur \<and> wf_tensor pre \<and> shape cur = n # sh \<and> shape pre = m # sh \<and>
    m < n \<and> 80 \<le> m \<and> 330 \<le> n \<longrightarrow>
      (\<exists>r. map_class_weights cur pre = Inr (Some r) \<and> shape r = shape cur \<and>
           (\<forall>c<80. get_row r (obj365_ids ! c + 1) = get_row pre c) \<and>
           (\<forall>j. j \<notin> (\<lambda>ob. ob + 1) ` set obj365_ids \<longrightarrow> get_row r j = get_row cur j) \<and>
           get_row r 0 = get_row cur 0))"
proof (intro conjI impI)
  assume "shape pre = shape cur"
  then show "map_class_weights cur pre = Inr (Some pre)" by (rule map_class_weights_same)
next
  assume a: "wf_tensor cur \<and> wf_tensor pre \<and> shape cur = n # sh \<and> shape pre = m # sh \<and>
    n < m \<and> 80 \<le> n \<and> 330 \<le> m"
  then obtain r where "map_class_weights cur pre = Inr (Some r)" "shape r = n # sh"
    "\<And>j. get_row r j = (if j < 80 then get_row pre (obj365_ids ! j + 1) else get_row cur j)"
    using map_class_weights_contract [of cur pre n sh m] by blast
  with a show "\<exists>r. map_class_weights cur pre = Inr (Some r) \<and> shape r = shape cur \<and>
           (\<forall>c<80. get_row r c = get_row pre (obj365_ids ! c + 1)) \<and>
           (\<forall>j\<ge>80. get_row r j = get_row cur j)"
    by auto
next
  assume a: "wf_tensor cur \<and> wf_tensor pre \<and> shape cur = n # sh \<and> shape pre = m # sh \<and>
    m < n \<and> 80 \<le> m \<and> 330 \<le> n"
  then obtain r where r: "map_class_weights cur pre = Inr (Some r)" "shape r = n # sh"
    "\<forall>c<80. get_row r (obj365_ids ! c + 1) = get_row pre c"
    "\<forall>j. j \<notin> (\<lambda>ob. ob + 1) ` set obj365_ids \<longrightarrow> get_row r j = get_row cur j"
    using map_class_weights_expand [of cur pre n sh m] by blast
  have "0 \<notin> (\<lambda>ob. ob + 1) ` set obj365_ids" by simp
  with r(4) have "get_row r 0 = get_row cur 0" by blast
  with a r show "\<exists>r. map_class_weights cur pre = Inr (Some r) \<and> shape r = shape cur \<and>
           (\<forall>c<80. get_row r (obj365_ids ! c + 1) = get_row pre c) \<and>
           (\<forall>j. j \<notin> (\<lambda>ob. ob + 1) ` set obj365_ids \<longrightarrow> get_row r j = get_row cur j) \<and>
           get_row r 0 = get_row cur 0"
    by auto
qed

text \<open>
  Without the bounds on the number of rows the call has no result: with 2 current and 3
  pretrained rows the second table entry reads the pretrained row 47.
\<close>

theorem map_class_weights_remap_counterexample:
  "map_class_weights (Tensor [2] [0, 0 :: nat]) (Tensor [3] [1, 2, 3]) = Inl IndexError"
  by (simp add: map_class_weights_def obj365_ids_def get_row_def set_row_def copy_to_def)


text \<open>The three cases of C1 at concrete tensors.\<close>

theorem map_class_weights_remap_witness:
  "(shape (Tensor [2] [7, 8 :: nat]) = shape (Tensor [2] [0, 0 :: nat]) \<and>
    map_class_weights (Tensor [2] [0, 0]) (Tensor [2] [7, 8 :: nat]) = Inr (Some (Tensor [2] [7, 8]))) \<and>
   (wf_tensor (Tensor [81] (replicate 81 (0 :: nat))) \<and>
    wf_tensor (Tensor [366] (replicate 366 (1 :: nat))) \<and>
    (\<exists>r. map_class_weights (Tensor [81] (replicate 81 0)) (Tensor [366] (replicate 366 (1 :: nat)))
            = Inr (Some r) \<and>
         get_row r 5 = get_row (Tensor [366] (replicate 366 1)) (obj365_ids ! 5 + 1) \<and>
         get_row r 80 = get_row (Tensor [81] (replicate 81 0)) 80)) \<and>
   (\<exists>r. map_class_weights (Tensor [366] (replicate 366 0)) (Tensor [80] (replicate 80 (1 :: nat)))
            = Inr (Some r) \<and>
         get_row r (obj365_ids ! 5 + 1) = get_row (Tensor [80] (replicate 80 1)) 5 \<and>
         get_row r 0 = get_row (Tensor [366] (replicate 366 0)) 0)"
proof -
  let ?s = "Tensor [2] [7, 8 :: nat]" and ?z = "Tensor [2] [0, 0 :: nat]"
  let ?c = "Tensor [81] (replicate 81 (0 :: nat))" and ?p = "Tensor [366] (replicate 366 (1 :: nat))"
  let ?C = "Tensor [366] (replicate 366 (0 :: nat))" and ?P = "Tensor [80] (replicate 80 (1 :: nat))"
  have h1: "shape ?s = shape ?z" by simp
  have h2: "wf_tensor ?c \<and> wf_tensor ?p \<and> shape ?c = 81 # [] \<and> shape ?p = 366 # [] \<and>
            (81 :: nat) < 366 \<and> (80 :: nat) \<le> 81 \<and> (330 :: nat) \<le> 366"
    by (simp add: wf_tensor_def)
  have h3: "wf_tensor ?C \<and> wf_tensor ?P \<and> shape ?C = 366 # [] \<and> shape ?P = 80 # [] \<and>
            (80 :: nat) < 366 \<and> (80 :: nat) \<le> 80 \<and> (330 :: nat) \<le> 366"
    by (simp add: wf_tensor_def)
  have a: "map_class_weights ?z ?s = Inr (Some ?s)"
    using map_class_weights_remap [where cur = ?z and pre = ?s] h1 by blast
  have b: "\<exists>r. map_class_weights ?c ?p = Inr (Some r) \<and>
         get_row r 5 = get_row ?p (obj365_ids ! 5 + 1) \<and> get_row r 80 = get_row ?c 80"
    using map_class_weights_remap [where cur = ?c and pre = ?p and n = 81 and sh = "[]" and m = 366]
      h2 by fastforce
  have c: "\<exists>r. map_class_weights ?C ?P = Inr (Some r) \<and>
         get_row r (obj365_ids ! 5 + 1) = get_row ?P 5 \<and> get_row r 0 = get_row ?C 0"
    using map_class_weights_remap [where cur = ?C and pre = ?P and n = 366 and sh = "[]" and m = 80]
      h3 by fastforce
  show ?thesis using h1 h2 a b c by blast
qed


subsection \<open>The shape matcher\<close>

lemma matched_loop_missed:
  "fst (snd (matched_loop items params (m, mi, un))) =
     mi @ map fst (filter (\<lambda>(k, v). map_of params k = None) items)"
  by (induction items arbitrary: m mi un) (auto split: option.splits)

lemma matched_loop_unmatched:
  "snd (snd (matched_loop items params (m, mi, un))) =
     un @ map fst (filter (\<lambda>(k, v). case map_of params k of
                                        None \<Rightarrow> False | Some p \<Rightarrow> shape v \<noteq> shape p) items)"
  by (induction items arbitrary: m mi un) (auto split: option.splits)

lemma matched_loop_distinct:
  "distinct (map fst m) \<Longrightarrow> distinct (map fst (fst (matched_loop items params (m, mi, un))))"
  by (induction items arbitrary: m mi un) (auto split: option.splits simp: distinct_update)

lemma matched_loop_map_of:
  "map_of (fst (matched_loop items params (m, mi, un))) k =
     (if \<exists>v p. (k, v) \<in> set items \<and> map_of params k = Some p \<and> shape v = shape p
      then map_of params k else map_of m k)"
proof (induction items arbitrary: m mi un)
  case Nil
  then show ?case by simp
next
  case (Cons x items)
  obtain k' v' where x: "x = (k', v')" by (cases x)
  show ?case
  proof (cases "map_of params k'")
    case None
    then have "matched_loop (x # items) params (m, mi, un)
               = matched_loop items params (m, mi @ [k'], un)"
      using x by simp
    moreover have "(\<exists>v p. (k, v) \<in> set (x # items) \<and> map_of params k = Some p \<and> shape v = shape p)
        = (\<exists>v p. (k, v) \<in> set items \<and> map_of params k = Some p \<and> shape v = shape p)"
      using x None by auto
    ultimately show ?thesis using Cons.IH [of m "mi @ [k']" un] by simp
  next
    case (Some p')
    show ?thesis
    proof (cases "shape v' = shape p'")
      case True
      then have "matched_loop (x # items) params (m, mi, un)
               = matched_loop items params (AList.update k' p' m, mi, un)"
        using x Some by simp
      then have "map_of (fst (matched_loop (x # items) params (m, mi, un))) k =
        (if \<exists>v p. (k, v) \<in> set items \<and> map_of params k = Some p \<and> shape v = shape p
         then map_of params k else map_of (AList.update k' p' m) k)"
        using Cons.IH [of "AList.update k' p' m" mi un] by simp
      also have "\<dots> =
        (if \<exists>v p. (k, v) \<in> set (x # items) \<and> map_of params k = Some p \<and> shape v = shape p
         then map_of params k else map_of m k)"
        using x Some True by (auto simp: update_conv')
      finally show ?thesis .
    next
      case False
      then have "matched_loop (x # items) params (m, mi, un)
               = matched_loop items params (m, mi, un @ [k'])"
        using x Some by simp
      moreover have "(\<exists>v p. (k, v) \<in> set (x # items) \<and> map_of params k = Some p \<and> shape v = shape p)
        = (\<exists>v p. (k, v) \<in> set items \<and> map_of params k = Some p \<and> shape v = shape p)"
        using x Some False by auto
      ultimately show ?thesis using Cons.IH [of m mi "un @ [k']"] by simp
    qed
  qed
qed

lemma matched_state_parts:
  "matched_state T S =
     (fst (matched_loop T S ([], [], [])),
      \<lparr>missed = map fst (filter (\<lambda>(k, v). map_of S k = None) T),
       unmatched = map fst (filter (\<lambda>(k, v). case map_of S k of
                                        None \<Rightarrow> False | Some p \<Rightarrow> shape v \<noteq> shape p) T)\<rparr>)"
  using matched_loop_missed [of T S "[]" "[]" "[]"] matched_loop_unmatched [of T S "[]" "[]" "[]"]
  by (cases "matched_loop T S ([], [], [])") (simp add: matched_state_def)

lemma matched_state_map_of:
  "map_of (fst (matched_state T S)) k =
     (if \<exists>v p. (k, v) \<in> set T \<and> map_of S k = Some p \<and> shape v = shape p
      then map_of S k else None)"
  using matched_loop_map_of [of T S "[]" "[]" "[]" k] by (auto simp: matched_state_parts)

lemma matched_state_shapes:
  assumes "map_of (fst (matched_state T S)) k = Some p"
  shows "map_of S k = Some p \<and> (\<exists>v. (k, v) \<in> set T \<and> shape v = shape p)"
  using assms by (auto simp: matched_state_map_of split: if_splits)


lemma matched_state_keys:
  assumes "distinct (map fst T)"
  shows "set (map fst (fst (matched_state T S))) =
           {k. \<exists>t s. map_of T k = Some t \<and> map_of S k = Some s \<and> shape t = shape s}"
proof -
  have "k \<in> set (map fst (fst (matched_state T S))) \<longleftrightarrow>
        (\<exists>t s. map_of T k = Some t \<and> map_of S k = Some s \<and> shape t = shape s)" for k
  proof -
    have "k \<in> set (map fst (fst (matched_state T S))) \<longleftrightarrow>
          map_of (fst (matched_state T S)) k \<noteq> None"
      by (simp add: map_of_eq_None_iff)
    also have "\<dots> \<longleftrightarrow> (\<exists>v p. (k, v) \<in> set T \<and> map_of S k = Some p \<and> shape v = shape p)"
      by (auto simp: matched_state_map_of)
    also have "\<dots> \<longleftrightarrow> (\<exists>t s. map_of T k = Some t \<and> map_of S k = Some s \<and> shape t = shape s)"
      using assms by auto
    finally show ?thesis .
  qed
  then show ?thesis by blast
qed

lemma matched_state_missed:
  "set (missed (snd (matched_state T S))) = {k \<in> fst ` set T. map_of S k = None}"
  by (force simp: matched_state_parts)

lemma matched_state_unmatched:
  assumes "distinct (map fst T)"
  shows "set (unmatched (snd (matched_state T S))) =
           {k \<in> fst ` set T. \<exists>t s. map_of T k = Some t \<and> map_of S k = Some s \<and> shape t \<noteq> shape s}"
proof -
  have "set (unmatched (snd (matched_state T S))) =
          {k. \<exists>v s. (k, v) \<in> set T \<and> map_of S k = Some s \<and> shape v \<noteq> shape s}"
    by (force simp: matched_state_parts split: option.splits)
  also have "\<dots> = {k \<in> fst ` set T. \<exists>t s. map_of T k = Some t \<and> map_of S k = Some s \<and> shape t \<noteq> shape s}"
    using assms by (force dest: map_of_SomeD)
  finally show ?thesis .
qed

lemma matched_state_lists_distinct:
  assumes "distinct (map fst T)"
  shows "distinct (missed (snd (matched_state T S)))"
    and "distinct (unmatched (snd (matched_state T S)))"
    and "distinct (map fst (fst (matched_state T S)))"
  using assms matched_loop_distinct [of "[]" T S "[]" "[]"]
  by (simp_all add: matched_state_parts distinct_map_filter)

text \<open>
  Claim C2. For a target mapping \<open>T\<close> (a dictionary: no key twice) and a candidate \<open>S\<close>,
  the matched mapping of \<open>_matched_state\<close> holds exactly the keys of \<open>T\<close> that \<open>S\<close> has
  with the same shape, each with the value of \<open>S\<close>; the missed list holds the keys of
  \<open>T\<close> absent from \<open>S\<close>, the unmatched list those present in \<open>S\<close> with another shape;
  the three lists together hold every key of \<open>T\<close> exactly once and no other key, so a
  key of \<open>S\<close> alone appears nowhere. The result is a function of the two arguments.
\<close>

theorem matched_state_partition:
  assumes "distinct (map fst T)"
  shows "(\<forall>k s. map_of (fst (matched_state T S)) k = Some s \<longleftrightarrow>
            (\<exists>t. map_of T k = Some t \<and> map_of S k = Some s \<and> shape t = shape s)) \<and>
         set (missed (snd (matched_state T S))) = {k \<in> fst ` set T. map_of S k = None} \<and>
         set (unmatched (snd (matched_state T S))) =
           {k \<in> fst ` set T. \<exists>t s. map_of T k = Some t \<and> map_of S k = Some s \<and> shape t \<noteq> shape s} \<and>
         distinct (map fst (fst (matched_state T S)) @ missed (snd (matched_state T S)) @
                   unmatched (snd (matched_state T S))) \<and>
         set (map fst (fst (matched_state T S)) @ missed (snd (matched_state T S)) @
              unmatched (snd (matched_state T S))) = fst ` set T"
proof -
  let ?M = "fst (matched_state T S)" and ?I = "snd (matched_state T S)"
  have a: "map_of ?M k = Some s \<longleftrightarrow>
            (\<exists>t. map_of T k = Some t \<and> map_of S k = Some s \<and> shape t = shape s)" for k s
  proof -
    have "(\<exists>v p. (k, v) \<in> set T \<and> map_of S k = Some p \<and> shape v = shape p) \<longleftrightarrow>
          (\<exists>t p. map_of T k = Some t \<and> map_of S k = Some p \<and> shape t = shape p)"
      using assms by auto
    then show ?thesis by (auto simp: matched_state_map_of)
  qed
  note k = matched_state_keys [OF assms, of S]
  note m = matched_state_missed [of T S]
  note u = matched_state_unmatched [OF assms, of S]
  note d = matched_state_lists_distinct [OF assms, of S]
  have disj: "set (map fst ?M) \<inter> set (missed ?I) = {}"
             "set (map fst ?M) \<inter> set (unmatched ?I) = {}"
             "set (missed ?I) \<inter> set (unmatched ?I) = {}"
    unfolding k m u by auto
  have "distinct (map fst ?M @ missed ?I @ unmatched ?I)"
    using d disj by auto
  moreover have "set (map fst ?M @ missed ?I @ unmatched ?I) = fst ` set T"
  proof -
    have "k \<in> fst ` set T \<longleftrightarrow> (\<exists>t. map_of T k = Some t)" for k
      by (metis map_of_eq_None_iff not_Some_eq)
    then have "fst ` set T = {k. \<exists>t. map_of T k = Some t}" by blast
    moreover have "set (map fst ?M @ missed ?I @ unmatched ?I)
       = set (map fst ?M) \<union> set (missed ?I) \<union> set (unmatched ?I)" by auto
    ultimately show ?thesis unfolding k m u by (auto; (metis not_Some_eq)?)
  qed
  ultimately show ?thesis using a m u by blast
qed

text \<open>C2 at a target of three keys: one matched, one missed, one unmatched.\<close>

theorem matched_state_partition_witness:
  "distinct (map fst [(''a'', Tensor [2] [1, 2 :: nat]), (''b'', Tensor [1] [3]), (''c'', Tensor [2] [4, 5])]) \<and>
   set (map fst (fst (matched_state
          [(''a'', Tensor [2] [1, 2 :: nat]), (''b'', Tensor [1] [3]), (''c'', Tensor [2] [4, 5])]
          [(''c'', Tensor [2] [7, 8]), (''a'', Tensor [3] [0, 0, 0]), (''z'', Tensor [1] [9])])) @
        missed (snd (matched_state
          [(''a'', Tensor [2] [1, 2 :: nat]), (''b'', Tensor [1] [3]), (''c'', Tensor [2] [4, 5])]
          [(''c'', Tensor [2] [7, 8]), (''a'', Tensor [3] [0, 0, 0]), (''z'', Tensor [1] [9])])) @
        unmatched (snd (matched_state
          [(''a'', Tensor [2] [1, 2 :: nat]), (''b'', Tensor [1] [3]), (''c'', Tensor [2] [4, 5])]
          [(''c'', Tensor [2] [7, 8]), (''a'', Tensor [3] [0, 0, 0]), (''z'', Tensor [1] [9])])))
     = {''a'', ''b'', ''c''} \<and>
   matched_state
          [(''a'', Tensor [2] [1, 2 :: nat]), (''b'', Tensor [1] [3]), (''c'', Tensor [2] [4, 5])]
          [(''c'', Tensor [2] [7, 8]), (''a'', Tensor [3] [0, 0, 0]), (''z'', Tensor [1] [9])]
     = ([(''c'', Tensor [2] [7, 8])], \<lparr>missed = [''b''], unmatched = [''a'']\<rparr>)"
proof -
  let ?T = "[(''a'', Tensor [2] [1, 2 :: nat]), (''b'', Tensor [1] [3]), (''c'', Tensor [2] [4, 5])]"
  let ?S = "[(''c'', Tensor [2] [7, 8 :: nat]), (''a'', Tensor [3] [0, 0, 0]), (''z'', Tensor [1] [9])]"
  have h: "distinct (map fst ?T)" by simp
  have e: "matched_state ?T ?S = ([(''c'', Tensor [2] [7, 8])], \<lparr>missed = [''b''], unmatched = [''a'']\<rparr>)"
    by (simp add: matched_state_def)
  from matched_state_partition [OF h, of ?S]
  have "set (map fst (fst (matched_state ?T ?S)) @ missed (snd (matched_state ?T ?S)) @
              unmatched (snd (matched_state ?T ?S))) = fst ` set ?T"
    by blast
  then show ?thesis using h e by auto
qed


subsection \<open>The head adjustment\<close>

lemma map_class_weights_not_None: "map_class_weights cur pre \<noteq> Inr None"
  by (simp add: map_class_weights_def Let_def split: sum.splits)

lemma adjust_loop_printed:
  "printed (fst (adjust_loop names cur st)) = printed st"
proof (induction names arbitrary: st)
  case Nil
  then show ?case by simp
next
  case (Cons n names)
  show ?case
  proof (cases "map_of cur n")
    case None
    then show ?thesis using Cons.IH by simp
  next
    case c: (Some c)
    show ?thesis
    proof (cases "map_of (pretrain_state_dict st) n")
      case None
      then show ?thesis using c Cons.IH by simp
    next
      case p: (Some p)
      show ?thesis
      proof (cases "map_class_weights c p")
        case (Inl e)
        then show ?thesis using c p by simp
      next
        case (Inr r)
        then obtain a where "r = Some a"
          using map_class_weights_not_None [of c p] by (cases r) auto
        then show ?thesis using c p Inr Cons.IH by simp
      qed
    qed
  qed
qed

lemma adjust_loop_keys:
  "fst ` set (pretrain_state_dict (fst (adjust_loop names cur st)))
     = fst ` set (pretrain_state_dict st)"
proof (induction names arbitrary: st)
  case Nil
  then show ?case by simp
next
  case (Cons n names)
  show ?case
  proof (cases "map_of cur n")
    case None
    then show ?thesis using Cons.IH by simp
  next
    case c: (Some c)
    show ?thesis
    proof (cases "map_of (pretrain_state_dict st) n")
      case None
      then show ?thesis using c Cons.IH by simp
    next
      case p: (Some p)
      then have n: "n \<in> fst ` set (pretrain_state_dict st)"
        by (metis map_of_eq_None_iff option.distinct(1))
      show ?thesis
      proof (cases "map_class_weights c p")
        case (Inl e)
        then show ?thesis using c p by simp
      next
        case (Inr r)
        then obtain a where "r = Some a"
          using map_class_weights_not_None [of c p] by (cases r) auto
        then show ?thesis using c p Inr n Cons.IH by (simp add: dom_update insert_absorb)
      qed
    qed
  qed
qed

lemma adjust_head_parameters_printed:
  "printed (fst (adjust_head_parameters cur pre)) = []"
  by (simp add: adjust_head_parameters_def Let_def adjust_loop_printed split: option.splits)

text \<open>
  Claim C9. \<open>map_class_weights\<close> never returns \<open>None\<close>, so \<open>_adjust_head_parameters\<close>
  never prints its size-mismatch line: whatever the two mappings, it prints nothing.
\<close>

theorem size_mismatch_branch_unreachable:
  "map_class_weights cur_tensor pretrain_tensor \<noteq> Inr None \<and>
   printed (fst (adjust_head_parameters cur_state_dict pretrain)) = []"
  using map_class_weights_not_None adjust_head_parameters_printed by blast

lemma matched_state_unmatched_raw:
  "set (unmatched (snd (matched_state T S))) =
          {k. \<exists>v s. (k, v) \<in> set T \<and> map_of S k = Some s \<and> shape v \<noteq> shape s}"
  by (force simp: matched_state_parts split: option.splits)

lemma adjust_head_parameters_drops_denoising:
  assumes "map_of cur denoising_key = Some c" "map_of pre denoising_key = Some p"
    and "shape p \<noteq> shape c"
  shows "denoising_key \<notin> fst ` set (pretrain_state_dict (fst (adjust_head_parameters cur pre)))"
  using assms by (simp add: adjust_head_parameters_def Let_def adjust_loop_keys delete_notin_dom)

text \<open>
  Claim C7. When \<open>decoder.denoising_class_embed.weight\<close> is in both mappings with
  different shapes, the pretrained dictionary that \<open>_adjust_head_parameters\<close> leaves
  (returned, or abandoned by an exception) does not have that key, and the matcher run
  on it against the current mapping reports the key as missed and not as unmatched.
\<close>

theorem denoising_key_dropped:
  assumes "map_of cur denoising_key = Some c" "map_of pre denoising_key = Some p"
    and "shape p \<noteq> shape c"
  shows "denoising_key \<notin> fst ` set (pretrain_state_dict (fst (adjust_head_parameters cur pre))) \<and>
         denoising_key \<in>
           set (missed (snd (matched_state cur
                  (pretrain_state_dict (fst (adjust_head_parameters cur pre)))))) \<and>
         denoising_key \<notin>
           set (unmatched (snd (matched_state cur
                  (pretrain_state_dict (fst (adjust_head_parameters cur pre))))))"
proof -
  let ?adj = "pretrain_state_dict (fst (adjust_head_parameters cur pre))"
  have a: "denoising_key \<notin> fst ` set ?adj"
    using assms by (rule adjust_head_parameters_drops_denoising)
  then have n: "map_of ?adj denoising_key = None" by (metis map_of_eq_None_iff)
  have "denoising_key \<in> fst ` set cur"
    using assms(1) by (metis map_of_eq_None_iff option.distinct(1))
  with n have b: "denoising_key \<in> set (missed (snd (matched_state cur ?adj)))"
    by (simp add: matched_state_missed)
  have c: "denoising_key \<notin> set (unmatched (snd (matched_state cur ?adj)))"
    using n by (simp add: matched_state_unmatched_raw)
  from a b c show ?thesis by blast
qed

text \<open>C7 at mappings that hold only the denoising key, with two and three rows.\<close>

theorem denoising_key_dropped_witness:
  "map_of [(denoising_key, Tensor [2] [0, 0 :: nat])] denoising_key = Some (Tensor [2] [0, 0]) \<and>
   map_of [(denoising_key, Tensor [3] [1, 1, 1 :: nat])] denoising_key = Some (Tensor [3] [1, 1, 1]) \<and>
   shape (Tensor [3] [1, 1, 1 :: nat]) \<noteq> shape (Tensor [2] [0, 0 :: nat]) \<and>
   denoising_key \<in>
     set (missed (snd (matched_state [(denoising_key, Tensor [2] [0, 0 :: nat])]
            (pretrain_state_dict (fst (adjust_head_parameters
               [(denoising_key, Tensor [2] [0, 0])] [(denoising_key, Tensor [3] [1, 1, 1])]))))))"
proof -
  let ?cur = "[(denoising_key, Tensor [2] [0, 0 :: nat])]"
  let ?pre = "[(denoising_key, Tensor [3] [1, 1, 1 :: nat])]"
  have h1: "map_of ?cur denoising_key = Some (Tensor [2] [0, 0])" by simp
  have h2: "map_of ?pre denoising_key = Some (Tensor [3] [1, 1, 1])" by simp
  have h3: "shape (Tensor [3] [1, 1, 1 :: nat]) \<noteq> shape (Tensor [2] [0, 0 :: nat])" by simp
  from denoising_key_dropped [OF h1 h2 h3] h1 h2 h3 show ?thesis by blast
qed

subsection \<open>The choice of the pretrained mapping\<close>

text \<open>
  Claim C10. A checkpoint with neither an \<open>ema\<close> nor a \<open>model\<close> entry makes
  \<open>load_tuning_state\<close> raise \<open>KeyError\<close>, with no adjustment and no matching done. When
  there is an \<open>ema\<close> entry, its \<open>module\<close> mapping is the pretrained mapping; when there
  is none, the \<open>model\<close> entry is.
\<close>

theorem load_tuning_state_selection:
  "(map_of state ''ema'' = None \<and> map_of state ''model'' = None \<longrightarrow>
      load_tuning_state module_state state = Inl KeyError) \<and>
   (map_of state ''ema'' = Some (Dict entries) \<and> map_of entries ''module'' = Some (Params sd) \<longrightarrow>
      select_pretrain state = Inr sd) \<and>
   (map_of state ''ema'' = None \<and> map_of state ''model'' = Some (Params sd') \<longrightarrow>
      select_pretrain state = Inr sd')"
  by (simp add: load_tuning_state_def select_pretrain_def)

text \<open>C10 at a checkpoint without weights, one with both entries and one with \<open>model\<close> only.\<close>

theorem load_tuning_state_selection_witness:
  "load_tuning_state [] [(''date'', NoneV), (''last_epoch'', Num 3)]
     = (Inl KeyError :: error + (nat state_dict \<times> infos)) \<and>
   select_pretrain [(''model'', Params [(''w'', Tensor [1] [1 :: nat])]),
                    (''ema'', Dict [(''module'', Params [(''w'', Tensor [1] [2])])])]
     = Inr [(''w'', Tensor [1] [2])] \<and>
   select_pretrain [(''model'', Params [(''w'', Tensor [1] [1 :: nat])])]
     = Inr [(''w'', Tensor [1] [1])]"
proof -
  let ?s1 = "[(''date'', NoneV), (''last_epoch'', Num 3)] :: nat checkpoint"
  let ?s2 = "[(''model'', Params [(''w'', Tensor [1] [1 :: nat])]),
              (''ema'', Dict [(''module'', Params [(''w'', Tensor [1] [2])])])]"
  let ?s3 = "[(''model'', Params [(''w'', Tensor [1] [1 :: nat])])]"
  have a: "load_tuning_state [] ?s1 = Inl KeyError"
    using load_tuning_state_selection [where state = ?s1 and module_state = "[]"] by simp
  have b: "select_pretrain ?s2 = Inr [(''w'', Tensor [1] [2])]"
    using load_tuning_state_selection [where state = ?s2
        and entries = "[(''module'', Params [(''w'', Tensor [1] [2])])]"
        and sd = "[(''w'', Tensor [1] [2])]"] by simp
  have c: "select_pretrain ?s3 = Inr [(''w'', Tensor [1] [1])]"
    using load_tuning_state_selection [where state = ?s3 and sd' = "[(''w'', Tensor [1] [1])]"]
    by simp
  from a b c show ?thesis by blast
qed


subsection \<open>Round trip through the table\<close>

lemma tensor_eq_rowsI:
  assumes "wf_tensor a" "wf_tensor b" "shape a = d # ds" "shape b = d # ds"
    and rows: "\<And>i. i < d \<Longrightarrow> get_row a i = get_row b i"
  shows "a = b"
proof -
  define n where "n = prod_list ds"
  have la: "length (data a) = d * n" and lb: "length (data b) = d * n"
    using assms(1-4) by (simp_all add: wf_tensor_def n_def)
  have blk: "take n (drop (i * n) (data a)) = take n (drop (i * n) (data b))" if "i < d" for i
    using rows [OF that] assms(3,4) that by (simp add: get_row_def n_def)
  have "data a ! k = data b ! k" if k: "k < d * n" for k
  proof -
    have n0: "0 < n" using k by (cases n) auto
    have i: "k div n < d" using k n0 by (simp add: less_mult_imp_div_less)
    have j: "k mod n < n" using n0 by simp
    have dec: "k div n * n + k mod n = k" by simp
    have le: "k div n * n + k mod n < length (data a)" using k la dec by simp
    have le': "k div n * n + k mod n < length (data b)" using k lb dec by simp
    have "k div n * n \<le> k" by simp
    then have ba: "k div n * n \<le> length (data a)" and bb: "k div n * n \<le> length (data b)"
      using k la lb by linarith+
    have "data a ! k = take n (drop (k div n * n) (data a)) ! (k mod n)"
      using j ba by (simp add: nth_drop dec)
    also have "\<dots> = take n (drop (k div n * n) (data b)) ! (k mod n)"
      by (simp only: blk [OF i])
    also have "\<dots> = data b ! k"
      using j bb by (simp add: nth_drop dec)
    finally show ?thesis .
  qed
  then have "data a = data b" using la lb by (simp add: list_eq_iff_nth_eq)
  then show ?thesis using assms(3,4) by (simp add: tensor.expand)
qed

lemma contract_reproduces:
  assumes "wf_tensor C" "shape C = 80 # sh" "wf_tensor T" "shape T = 80 # sh"
    and "wf_tensor E" "shape E = N # sh" "330 \<le> N"
    and "\<forall>c<80. get_row E (obj365_ids ! c + 1) = get_row C c"
  shows "map_class_weights T E = Inr (Some C)"
proof -
  have "80 < N" using assms(7) by simp
  from map_class_weights_contract [OF assms(3,5,4,6) this le_refl assms(7)]
  obtain r where r: "map_class_weights T E = Inr (Some r)" "wf_tensor r" "shape r = 80 # sh"
    "\<And>j. get_row r j = (if j < 80 then get_row E (obj365_ids ! j + 1) else get_row T j)"
    by blast
  have "get_row r i = get_row C i" if "i < 80" for i
    using r(4) [of i] assms(8) that by simp
  then have "r = C" using tensor_eq_rowsI [OF r(2) assms(1) r(3) assms(2)] by blast
  with r(1) show ?thesis by simp
qed

text \<open>
  Claim C6. Let \<open>C\<close> be a compact tensor of 80 rows and \<open>T\<close> any target of the same
  shape. Expanding \<open>C\<close> into a superset base \<open>S\<close> (at least 330 rows, the same row
  shape) and contracting the result into \<open>T\<close> gives \<open>C\<close> back, row for row; and so does
  contracting any superset tensor \<open>E\<close> that holds \<open>C[c]\<close> at row \<open>table[c] + 1\<close> for every
  \<open>c < 80\<close>, whatever its other rows.
\<close>

theorem remap_round_trip:
  assumes "wf_tensor C" "shape C = 80 # sh" "wf_tensor T" "shape T = 80 # sh"
  shows "(wf_tensor S \<and> shape S = N # sh \<and> 330 \<le> N \<longrightarrow>
            (\<exists>E. map_class_weights S C = Inr (Some E) \<and>
                 map_class_weights T E = Inr (Some C) \<and>
                 (\<forall>c<80. get_row C c = get_row E (obj365_ids ! c + 1)))) \<and>
         (wf_tensor E' \<and> shape E' = N' # sh \<and> 330 \<le> N' \<and>
          (\<forall>c<80. get_row E' (obj365_ids ! c + 1) = get_row C c) \<longrightarrow>
            map_class_weights T E' = Inr (Some C))"
proof (intro conjI impI)
  assume s: "wf_tensor S \<and> shape S = N # sh \<and> 330 \<le> N"
  then have s': "wf_tensor S" "shape S = N # sh" "330 \<le> N" "80 < N" by simp_all
  from map_class_weights_expand [OF s'(1) assms(1) s'(2) assms(2) s'(4) le_refl s'(3)]
  obtain E where E: "map_class_weights S C = Inr (Some E)" "wf_tensor E" "shape E = N # sh"
    "\<forall>c<80. get_row E (obj365_ids ! c + 1) = get_row C c"
    by blast
  from contract_reproduces [OF assms E(2,3) _ E(4)] s
  have "map_class_weights T E = Inr (Some C)" by simp
  with E show "\<exists>E. map_class_weights S C = Inr (Some E) \<and>
                 map_class_weights T E = Inr (Some C) \<and>
                 (\<forall>c<80. get_row C c = get_row E (obj365_ids ! c + 1))"
    by auto
next
  assume e: "wf_tensor E' \<and> shape E' = N' # sh \<and> 330 \<le> N' \<and>
          (\<forall>c<80. get_row E' (obj365_ids ! c + 1) = get_row C c)"
  then show "map_class_weights T E' = Inr (Some C)"
    using contract_reproduces [OF assms, of E' N'] by blast
qed

text \<open>C6 at a compact tensor of 80 scalars, a base of 366 rows and a target of zeros.\<close>

theorem remap_round_trip_witness:
  "wf_tensor (Tensor [80] (map Suc [0..<80])) \<and> wf_tensor (Tensor [80] (replicate 80 (0 :: nat))) \<and>
   wf_tensor (Tensor [366] (replicate 366 (7 :: nat))) \<and>
   (\<exists>E. map_class_weights (Tensor [366] (replicate 366 7)) (Tensor [80] (map Suc [0..<80]))
           = Inr (Some E) \<and>
        map_class_weights (Tensor [80] (replicate 80 0)) E
           = Inr (Some (Tensor [80] (map Suc [0..<80]))))"
proof -
  let ?C = "Tensor [80] (map Suc [0..<80])" and ?T = "Tensor [80] (replicate 80 (0 :: nat))"
  let ?S = "Tensor [366] (replicate 366 (7 :: nat))"
  have h: "wf_tensor ?C" "shape ?C = 80 # []" "wf_tensor ?T" "shape ?T = 80 # []"
    by (simp_all add: wf_tensor_def)
  have s: "wf_tensor ?S \<and> shape ?S = 366 # [] \<and> (330 :: nat) \<le> 366"
    by (simp add: wf_tensor_def)
  from remap_round_trip [OF h, where S = ?S and N = 366] s
  have "\<exists>E. map_class_weights ?S ?C = Inr (Some E) \<and> map_class_weights ?T E = Inr (Some ?C)"
    by blast
  with h s show ?thesis by blast
qed


subsection \<open>The tuning load\<close>

lemma load_non_strict_ok:
  assumes "\<forall>(k, v) \<in> set params. \<forall>p. map_of stat k = Some p \<longrightarrow> shape p = shape v"
  shows "load_non_strict params stat =
           Inr (map (\<lambda>(k, v). (k, case map_of stat k of None \<Rightarrow> v | Some p \<Rightarrow> p)) params)"
  using assms by (induction params) (auto split: option.splits)

lemma matched_state_loadable:
  assumes "distinct (map fst T)"
  shows "\<forall>(k, v) \<in> set T. \<forall>p. map_of (fst (matched_state T S)) k = Some p \<longrightarrow> shape p = shape v"
proof (clarify)
  fix k v p
  assume kv: "(k, v) \<in> set T" and m: "map_of (fst (matched_state T S)) k = Some p"
  from matched_state_shapes [OF m] obtain v' where "(k, v') \<in> set T" "shape v' = shape p"
    by blast
  moreover have "v' = v" using assms kv calculation(1) by (meson eq_key_imp_eq_value)
  ultimately show "shape p = shape v" by simp
qed

lemma load_tuning_state_completes:
  assumes "distinct (map fst module_state)" "select_pretrain state = Inr pretrain"
  shows "\<exists>loaded report. load_tuning_state module_state state = Inr (loaded, report)"
proof -
  obtain st raised where a: "adjust_head_parameters module_state pretrain = (st, raised)"
    by (cases "adjust_head_parameters module_state pretrain")
  obtain stat report where m: "matched_state module_state (pretrain_state_dict st) = (stat, report)"
    by (cases "matched_state module_state (pretrain_state_dict st)")
  have "stat = fst (matched_state module_state (pretrain_state_dict st))" using m by simp
  with matched_state_loadable [OF assms(1), of "pretrain_state_dict st"]
  have "\<exists>loaded. load_non_strict module_state stat = Inr loaded"
    using load_non_strict_ok [of module_state stat] by blast
  then show ?thesis
    using assms(2) a m by (cases raised) (auto simp: load_tuning_state_def)
qed

text \<open>
  Claim C3 at a failing input. The current model has two classes, the checkpoint three.
  The denoising entry differs in shape and is deleted; the remap of the encoder bias
  then raises \<open>IndexError\<close>. The load does complete, but the fallback match reads the
  dictionary without the deleted entry: it reports the denoising key as missed, where a
  match against the mapping as extracted from the checkpoint reports it as unmatched.
\<close>

theorem fallback_reads_mutated_mapping:
  "snd (adjust_head_parameters
          [(denoising_key, Tensor [3, 1] [0, 0, 0 :: nat]),
           (''decoder.enc_score_head.bias'', Tensor [2] [0, 0])]
          [(denoising_key, Tensor [4, 1] [1, 1, 1, 1]),
           (''decoder.enc_score_head.bias'', Tensor [3] [5, 6, 7])]) = Some IndexError \<and>
   load_tuning_state
     [(denoising_key, Tensor [3, 1] [0, 0, 0 :: nat]),
      (''decoder.enc_score_head.bias'', Tensor [2] [0, 0])]
     [(''model'', Params [(denoising_key, Tensor [4, 1] [1, 1, 1, 1]),
                          (''decoder.enc_score_head.bias'', Tensor [3] [5, 6, 7])])]
     = Inr ([(denoising_key, Tensor [3, 1] [0, 0, 0]),
             (''decoder.enc_score_head.bias'', Tensor [2] [0, 0])],
            \<lparr>missed = [denoising_key], unmatched = [''decoder.enc_score_head.bias'']\<rparr>) \<and>
   matched_state
     [(denoising_key, Tensor [3, 1] [0, 0, 0 :: nat]),
      (''decoder.enc_score_head.bias'', Tensor [2] [0, 0])]
     [(denoising_key, Tensor [4, 1] [1, 1, 1, 1]),
      (''decoder.enc_score_head.bias'', Tensor [3] [5, 6, 7])]
     = ([], \<lparr>missed = [], unmatched = [denoising_key, ''decoder.enc_score_head.bias'']\<rparr>)"
  by (simp add: load_tuning_state_def select_pretrain_def adjust_head_parameters_def
      matched_state_def denoising_key_def head_param_names_def map_class_weights_def
      obj365_ids_def get_row_def set_row_def copy_to_def)

text \<open>
  Claim C4 at a failing input. The encoder bias has two rows in the current model and
  three in the checkpoint, sizes the table cannot address. The remap raises
  \<open>IndexError\<close> and \<open>_adjust_head_parameters\<close> ends there: nothing is printed, no
  parameter is recorded as adjusted, and the decoder bias that follows is not visited.
\<close>

theorem irreconcilable_shapes_abort_adjustment:
  "adjust_head_parameters
     [(denoising_key, Tensor [1] [0 :: nat]),
      (''decoder.enc_score_head.bias'', Tensor [2] [0, 0]),
      (''decoder.dec_score_head.0.bias'', Tensor [2] [0, 0])]
     [(denoising_key, Tensor [1] [9]),
      (''decoder.enc_score_head.bias'', Tensor [3] [5, 6, 7]),
      (''decoder.dec_score_head.0.bias'', Tensor [2] [3, 4])]
   = (\<lparr>pretrain_state_dict =
         [(denoising_key, Tensor [1] [9]),
          (''decoder.enc_score_head.bias'', Tensor [3] [5, 6, 7]),
          (''decoder.dec_score_head.0.bias'', Tensor [2] [3, 4])],
       adjusted_params = [], printed = []\<rparr>,
      Some IndexError)"
  by (simp add: adjust_head_parameters_def denoising_key_def head_param_names_def
      map_class_weights_def obj365_ids_def get_row_def set_row_def copy_to_def)


subsection \<open>The tuning load on the encoder head\<close>

lemma distinct_head_param_names: "distinct head_param_names"
  by (simp add: head_param_names_def)

lemma denoising_key_not_head: "denoising_key \<notin> set head_param_names"
  by (simp add: head_param_names_def denoising_key_def)

lemma adjust_loop_untouched:
  "k \<notin> set names \<Longrightarrow>
     map_of (pretrain_state_dict (fst (adjust_loop names cur st))) k
       = map_of (pretrain_state_dict st) k"
proof (induction names arbitrary: st)
  case Nil
  then show ?case by simp
next
  case (Cons n names)
  then have kn: "k \<noteq> n" and k: "k \<notin> set names" by auto
  show ?case
  proof (cases "map_of cur n")
    case None
    then show ?thesis using Cons.IH [OF k] by simp
  next
    case c: (Some c)
    show ?thesis
    proof (cases "map_of (pretrain_state_dict st) n")
      case None
      then show ?thesis using c Cons.IH [OF k] by simp
    next
      case p: (Some p)
      show ?thesis
      proof (cases "map_class_weights c p")
        case (Inl e)
        then show ?thesis using c p by simp
      next
        case (Inr r)
        then obtain a where "r = Some a"
          using map_class_weights_not_None [of c p] by (cases r) auto
        then show ?thesis using c p Inr kn Cons.IH [OF k] by (simp add: update_conv')
      qed
    qed
  qed
qed

lemma adjust_loop_lookup:
  assumes "map_of cur k = Some c"
  shows "snd (adjust_loop names cur st) = None \<Longrightarrow> distinct names \<Longrightarrow> k \<in> set names \<Longrightarrow>
         map_of (pretrain_state_dict st) k = Some p \<Longrightarrow>
         \<exists>a. map_class_weights c p = Inr (Some a) \<and>
             map_of (pretrain_state_dict (fst (adjust_loop names cur st))) k = Some a"
proof (induction names arbitrary: st)
  case Nil
  then show ?case by simp
next
  case (Cons n names)
  from Cons.prems(2) have dn: "distinct names" and nn: "n \<notin> set names" by auto
  show ?case
  proof (cases "k = n")
    case True
    show ?thesis
    proof (cases "map_class_weights c p")
      case (Inl e)
      then show ?thesis using True assms Cons.prems(1,4) by simp
    next
      case (Inr r)
      then obtain a where a: "r = Some a"
        using map_class_weights_not_None [of c p] by (cases r) auto
      let ?st = "st\<lparr>pretrain_state_dict := AList.update n a (pretrain_state_dict st),
                      adjusted_params := adjusted_params st @ [n]\<rparr>"
      have "adjust_loop (n # names) cur st = adjust_loop names cur ?st"
        using True assms Cons.prems(4) Inr a by simp
      moreover have "map_of (pretrain_state_dict (fst (adjust_loop names cur ?st))) k = Some a"
        using adjust_loop_untouched [of k names cur ?st] nn True by (simp add: update_conv')
      ultimately show ?thesis using Inr a by simp
    qed
  next
    case False
    with Cons.prems(3) have kin: "k \<in> set names" by simp
    show ?thesis
    proof (cases "map_of cur n")
      case None
      then show ?thesis using Cons.IH [OF _ dn kin Cons.prems(4)] Cons.prems(1) by simp
    next
      case cn: (Some cn)
      show ?thesis
      proof (cases "map_of (pretrain_state_dict st) n")
        case None
        then show ?thesis using cn Cons.IH [OF _ dn kin Cons.prems(4)] Cons.prems(1) by simp
      next
        case pn: (Some pn)
        show ?thesis
        proof (cases "map_class_weights cn pn")
          case (Inl e)
          then show ?thesis using cn pn Cons.prems(1) by simp
        next
          case (Inr r)
          then obtain a where a: "r = Some a"
            using map_class_weights_not_None [of cn pn] by (cases r) auto
          let ?st = "st\<lparr>pretrain_state_dict := AList.update n a (pretrain_state_dict st),
                      adjusted_params := adjusted_params st @ [n]\<rparr>"
          have eq: "adjust_loop (n # names) cur st = adjust_loop names cur ?st"
            using cn pn Inr a by simp
          have "map_of (pretrain_state_dict ?st) k = Some p"
            using False Cons.prems(4) by (simp add: update_conv')
          from Cons.IH [OF _ dn kin this] Cons.prems(1) eq show ?thesis by simp
        qed
      qed
    qed
  qed
qed

lemma adjust_head_parameters_lookup:
  assumes "snd (adjust_head_parameters cur pre) = None" "k \<in> set head_param_names"
    and "map_of cur k = Some c" "map_of pre k = Some p"
  shows "\<exists>a. map_class_weights c p = Inr (Some a) \<and>
             map_of (pretrain_state_dict (fst (adjust_head_parameters cur pre))) k = Some a"
proof -
  from assms(1) obtain p0 c0 where d: "map_of pre denoising_key = Some p0"
      "map_of cur denoising_key = Some c0"
    by (auto simp: adjust_head_parameters_def Let_def split: option.splits)
  define st where "st = (if shape p0 \<noteq> shape c0
        then \<lparr>pretrain_state_dict = AList.delete denoising_key pre, adjusted_params = [],
               printed = []\<rparr>
        else \<lparr>pretrain_state_dict = pre, adjusted_params = [], printed = []\<rparr>)"
  have eq: "adjust_head_parameters cur pre = adjust_loop head_param_names cur st"
    using d by (simp add: adjust_head_parameters_def Let_def st_def)
  have "k \<noteq> denoising_key" using assms(2) denoising_key_not_head by auto
  then have "map_of (pretrain_state_dict st) k = Some p"
    using assms(4) by (simp add: st_def)
  from adjust_loop_lookup [OF assms(3) _ distinct_head_param_names assms(2) this] assms(1) eq
  show ?thesis by simp
qed

lemma map_of_map_values:
  "map_of (map (\<lambda>(k, v). (k, f k v)) xs) k = map_option (f k) (map_of xs k)"
  by (induction xs) auto

lemma tuning_load_contract_rows:
  assumes "distinct (map fst module_state)" "select_pretrain state = Inr pretrain"
    and "snd (adjust_head_parameters module_state pretrain) = None"
    and "name \<in> set head_param_names"
    and "map_of module_state name = Some c" "map_of pretrain name = Some p"
    and "wf_tensor c" "wf_tensor p" "shape c = n # sh" "shape p = m # sh"
    and "n < m" "80 \<le> n" "330 \<le> m"
  shows "\<exists>loaded report r. load_tuning_state module_state state = Inr (loaded, report) \<and>
           map_of loaded name = Some r \<and>
           (\<forall>j. get_row r j =
                  (if j < 80 then get_row p (obj365_ids ! j + 1) else get_row c j))"
proof -
  obtain st raised where a: "adjust_head_parameters module_state pretrain = (st, raised)"
    by (cases "adjust_head_parameters module_state pretrain")
  with assms(3) have raised: "raised = None" by simp
  obtain stat report where m: "matched_state module_state (pretrain_state_dict st) = (stat, report)"
    by (cases "matched_state module_state (pretrain_state_dict st)")
  from map_class_weights_contract [OF assms(7,8,9,10,11,12,13)] obtain r where
    r: "map_class_weights c p = Inr (Some r)" "shape r = n # sh"
       "\<And>j. get_row r j = (if j < 80 then get_row p (obj365_ids ! j + 1) else get_row c j)"
    by blast
  from adjust_head_parameters_lookup [OF assms(3,4,5,6)] r(1) a
  have look: "map_of (pretrain_state_dict st) name = Some r" by simp
  have cin: "(name, c) \<in> set module_state" using assms(5) by (rule map_of_SomeD)
  have "map_of (fst (matched_state module_state (pretrain_state_dict st))) name = Some r"
    using cin look r(2) assms(9) by (auto simp: matched_state_map_of)
  then have stat: "map_of stat name = Some r" using m by simp
  have "stat = fst (matched_state module_state (pretrain_state_dict st))" using m by simp
  with matched_state_loadable [OF assms(1), of "pretrain_state_dict st"]
  have ld: "load_non_strict module_state stat =
      Inr (map (\<lambda>(k, v). (k, case map_of stat k of None \<Rightarrow> v | Some p \<Rightarrow> p)) module_state)"
    using load_non_strict_ok [of module_state stat] by blast
  let ?loaded = "map (\<lambda>(k, v). (k, case map_of stat k of None \<Rightarrow> v | Some p \<Rightarrow> p)) module_state"
  have "load_tuning_state module_state state = Inr (?loaded, report)"
    using assms(2) a raised m ld by (simp add: load_tuning_state_def)
  moreover have "map_of ?loaded name = Some r"
    using assms(5) stat by (simp add: map_of_map_values)
  ultimately show ?thesis using r(3) by blast
qed


lemma adjust_loop_no_raise:
  "distinct names \<Longrightarrow>
   (\<forall>n\<in>set names. \<forall>c p. map_of cur n = Some c \<and> map_of (pretrain_state_dict st) n = Some p
        \<longrightarrow> (\<exists>a. map_class_weights c p = Inr (Some a))) \<Longrightarrow>
   snd (adjust_loop names cur st) = None"
proof (induction names arbitrary: st)
  case Nil
  then show ?case by simp
next
  case (Cons n names)
  from Cons.prems(1) have dn: "distinct names" and nn: "n \<notin> set names" by auto
  have rest: "\<forall>n'\<in>set names. \<forall>c p. map_of cur n' = Some c \<and>
       map_of (pretrain_state_dict st) n' = Some p \<longrightarrow> (\<exists>a. map_class_weights c p = Inr (Some a))"
    using Cons.prems(2) by simp
  show ?case
  proof (cases "map_of cur n")
    case None
    then show ?thesis using Cons.IH [OF dn rest] by simp
  next
    case c: (Some c)
    show ?thesis
    proof (cases "map_of (pretrain_state_dict st) n")
      case None
      then show ?thesis using c Cons.IH [OF dn rest] by simp
    next
      case p: (Some p)
      from Cons.prems(2) c p obtain a where a: "map_class_weights c p = Inr (Some a)"
        by auto
      let ?st = "st\<lparr>pretrain_state_dict := AList.update n a (pretrain_state_dict st),
                      adjusted_params := adjusted_params st @ [n]\<rparr>"
      have "\<forall>n'\<in>set names. map_of (pretrain_state_dict ?st) n' = map_of (pretrain_state_dict st) n'"
        using nn by (auto simp: update_conv')
      with rest have "\<forall>n'\<in>set names. \<forall>c p. map_of cur n' = Some c \<and>
         map_of (pretrain_state_dict ?st) n' = Some p \<longrightarrow> (\<exists>a. map_class_weights c p = Inr (Some a))"
        by simp
      from Cons.IH [OF dn this] show ?thesis using c p a by simp
    qed
  qed
qed

lemma scenario_adjusts:
  "snd (adjust_head_parameters scenario_model scenario_pretrained) = None"
proof -
  let ?st = "\<lparr>pretrain_state_dict = scenario_pretrained, adjusted_params = [], printed = []\<rparr>"
  have w: "\<exists>a. map_class_weights (Tensor [81, 1] (replicate 81 (0 :: nat)))
                  (Tensor [366, 1] (replicate 366 7)) = Inr (Some a)"
    using map_class_weights_contract [of "Tensor [81, 1] (replicate 81 (0 :: nat))"
        "Tensor [366, 1] (replicate 366 7)" 81 "[1]" 366]
    by (simp add: wf_tensor_def) blast
  have b: "\<exists>a. map_class_weights (Tensor [81] (replicate 81 (0 :: nat)))
                  (Tensor [366] (replicate 366 7)) = Inr (Some a)"
    using map_class_weights_contract [of "Tensor [81] (replicate 81 (0 :: nat))"
        "Tensor [366] (replicate 366 7)" 81 "[]" 366]
    by (simp add: wf_tensor_def) blast
  have "\<forall>n\<in>set head_param_names. \<forall>c p. map_of scenario_model n = Some c \<and>
          map_of (pretrain_state_dict ?st) n = Some p \<longrightarrow> (\<exists>a. map_class_weights c p = Inr (Some a))"
    using w b
    by (simp add: head_param_names_def scenario_model_def scenario_pretrained_def denoising_key_def)
  from adjust_loop_no_raise [OF distinct_head_param_names this]
  show ?thesis
    by (simp add: adjust_head_parameters_def scenario_model_def scenario_pretrained_def)
qed

lemma scenario_bias_rows:
  "\<exists>loaded report r.
     load_tuning_state scenario_model scenario_checkpoint = Inr (loaded, report) \<and>
     map_of loaded ''decoder.enc_score_head.bias'' = Some r \<and>
     (\<forall>j. get_row r j =
        (if j < 80 then get_row (Tensor [366] (replicate 366 7)) (obj365_ids ! j + 1)
         else get_row (Tensor [81] (replicate 81 0)) j))"
proof (rule tuning_load_contract_rows [where n = 81 and m = 366 and sh = "[]"])
  show "distinct (map fst scenario_model)"
    by (simp add: scenario_model_def denoising_key_def)
  show "select_pretrain scenario_checkpoint = Inr scenario_pretrained"
    by (simp add: select_pretrain_def scenario_checkpoint_def)
  show "snd (adjust_head_parameters scenario_model scenario_pretrained) = None"
    by (rule scenario_adjusts)
  show "''decoder.enc_score_head.bias'' \<in> set head_param_names"
    by (simp add: head_param_names_def)
  show "map_of scenario_model ''decoder.enc_score_head.bias'' = Some (Tensor [81] (replicate 81 0))"
    by (simp add: scenario_model_def denoising_key_def)
  show "map_of scenario_pretrained ''decoder.enc_score_head.bias''
          = Some (Tensor [366] (replicate 366 7))"
    by (simp add: scenario_pretrained_def denoising_key_def)
qed (simp_all add: wf_tensor_def)

text \<open>
  Claim C5, as amended. When the head adjustment raises no exception, the tuning load
  of a model whose encoder score head (weight or bias) has 81 rows from a pretrained
  mapping where it has 366 rows gives a head whose row \<open>c\<close> is the pretrained row
  \<open>table[c] + 1\<close> for every \<open>c < 80\<close>. The row that keeps its value from before the load
  is row 80, which the table does not reach; row 0 becomes the pretrained row 1.
\<close>

theorem tuning_load_encoder_head:
  assumes "distinct (map fst module_state)" "select_pretrain state = Inr pretrain"
    and "snd (adjust_head_parameters module_state pretrain) = None"
    and "name = ''decoder.enc_score_head.weight'' \<or> name = ''decoder.enc_score_head.bias''"
    and "map_of module_state name = Some c" "map_of pretrain name = Some p"
    and "wf_tensor c" "wf_tensor p" "shape c = 81 # sh" "shape p = 366 # sh"
  shows "\<exists>loaded report r. load_tuning_state module_state state = Inr (loaded, report) \<and>
           map_of loaded name = Some r \<and>
           (\<forall>i<80. get_row r i = get_row p (obj365_ids ! i + 1)) \<and>
           get_row r 80 = get_row c 80 \<and>
           get_row r 0 = get_row p 1"
proof -
  have n: "name \<in> set head_param_names"
    using assms(4) by (auto simp: head_param_names_def)
  from tuning_load_contract_rows [OF assms(1,2,3) n assms(5,6,7,8,9,10)]
  obtain loaded report r where
    r: "load_tuning_state module_state state = Inr (loaded, report)" "map_of loaded name = Some r"
       "\<And>j. get_row r j = (if j < 80 then get_row p (obj365_ids ! j + 1) else get_row c j)"
    by auto
  have "obj365_ids ! 0 = 0" by (simp add: obj365_ids_def)
  then have "get_row r 0 = get_row p 1" using r(3) [of 0] by simp
  moreover have "get_row r 80 = get_row c 80" using r(3) [of 80] by simp
  moreover have "\<forall>i<80. get_row r i = get_row p (obj365_ids ! i + 1)" using r(3) by simp
  ultimately show ?thesis using r(1,2) by blast
qed

text \<open>
  In the scenario the bias of the loaded model has the pretrained seven in row 0, where
  the model had zero before the load.
\<close>

theorem tuning_load_encoder_head_counterexample:
  "get_row (the (map_of (fst (projr (load_tuning_state scenario_model scenario_checkpoint)))
                   ''decoder.enc_score_head.bias'')) 0 = Inr (Tensor [] [7]) \<and>
   get_row (the (map_of scenario_model ''decoder.enc_score_head.bias'')) 0 = Inr (Tensor [] [0])"
proof -
  from scenario_bias_rows obtain loaded report r where
    r: "load_tuning_state scenario_model scenario_checkpoint = Inr (loaded, report)"
       "map_of loaded ''decoder.enc_score_head.bias'' = Some r"
       "\<And>j. get_row r j =
        (if j < 80 then get_row (Tensor [366] (replicate 366 7)) (obj365_ids ! j + 1)
         else get_row (Tensor [81] (replicate 81 0)) j)"
    by blast
  have "obj365_ids ! 0 = 0" by (simp add: obj365_ids_def)
  then have "get_row r 0 = get_row (Tensor [366] (replicate 366 7)) 1" using r(3) [of 0] by simp
  also have "\<dots> = Inr (Tensor [] [7])" by (simp add: get_row_def)
  finally have a: "get_row r 0 = Inr (Tensor [] [7])" .
  have b: "get_row (the (map_of scenario_model ''decoder.enc_score_head.bias'')) 0
             = Inr (Tensor [] [0])"
    by (simp add: scenario_model_def denoising_key_def get_row_def)
  from a b r(1,2) show ?thesis by simp
qed

text \<open>C5 at the scenario, for the bias.\<close>

theorem tuning_load_encoder_head_witness:
  "distinct (map fst scenario_model) \<and>
   select_pretrain scenario_checkpoint = Inr scenario_pretrained \<and>
   snd (adjust_head_parameters scenario_model scenario_pretrained) = None \<and>
   (\<exists>loaded report r.
      load_tuning_state scenario_model scenario_checkpoint = Inr (loaded, report) \<and>
      map_of loaded ''decoder.enc_score_head.bias'' = Some r \<and>
      get_row r 80 = get_row (Tensor [81] (replicate 81 0)) 80 \<and>
      get_row r 0 = get_row (Tensor [366] (replicate 366 7)) 1)"
proof -
  have h1: "distinct (map fst scenario_model)"
    by (simp add: scenario_model_def denoising_key_def)
  have h2: "select_pretrain scenario_checkpoint = Inr scenario_pretrained"
    by (simp add: select_pretrain_def scenario_checkpoint_def)
  have h3: "snd (adjust_head_parameters scenario_model scenario_pretrained) = None"
    by (rule scenario_adjusts)
  have h4: "''decoder.enc_score_head.bias'' = ''decoder.enc_score_head.weight'' \<or>
            ''decoder.enc_score_head.bias'' = ''decoder.enc_score_head.bias''" by simp
  have h5: "map_of scenario_model ''decoder.enc_score_head.bias''
              = Some (Tensor [81] (replicate 81 0))"
    by (simp add: scenario_model_def denoising_key_def)
  have h6: "map_of scenario_pretrained ''decoder.enc_score_head.bias''
              = Some (Tensor [366] (replicate 366 7))"
    by (simp add: scenario_pretrained_def denoising_key_def)
  have h7: "wf_tensor (Tensor [81] (replicate 81 (0 :: nat)))"
    and h8: "wf_tensor (Tensor [366] (replicate 366 (7 :: nat)))"
    by (simp_all add: wf_tensor_def)
  have h9: "shape (Tensor [81] (replicate 81 (0 :: nat))) = 81 # []"
    and h10: "shape (Tensor [366] (replicate 366 (7 :: nat))) = 366 # []" by simp_all
  from tuning_load_encoder_head [OF h1 h2 h3 h4 h5 h6 h7 h8 h9 h10] h1 h2 h3
  show ?thesis by blast
qed


subsection \<open>The component restore\<close>

lemma update_fresh: "k \<notin> fst ` set al \<Longrightarrow> AList.update k v al = al @ [(k, v)]"
  by (induction al) auto

lemma remove_prefix_loop_fresh:
  "distinct (map (\<lambda>(k, v). if take 7 k = ''module.'' then drop 7 k else k) items) \<Longrightarrow>
   (\<lambda>(k, v). if take 7 k = ''module.'' then drop 7 k else k) ` set items \<inter> fst ` set acc = {} \<Longrightarrow>
   remove_prefix_loop items acc =
     acc @ map (\<lambda>(k, v). (if take 7 k = ''module.'' then drop 7 k else k, v)) items"
proof (induction items arbitrary: acc)
  case Nil
  then show ?case by simp
next
  case (Cons x items)
  obtain k v where x: "x = (k, v)" by (cases x)
  let ?f = "\<lambda>(k, v :: 'a). if take 7 k = ''module.'' then drop 7 k else k"
  let ?k = "if take 7 k = ''module.'' then drop 7 k else k"
  have fresh: "?k \<notin> fst ` set acc" using Cons.prems(2) x by auto
  have d: "distinct (map ?f items)" and notin: "?k \<notin> ?f ` set items"
    using Cons.prems(1) x by auto
  have step: "remove_prefix_loop (x # items) acc = remove_prefix_loop items (acc @ [(?k, v)])"
    using x update_fresh [OF fresh, of v] by (cases "take 7 k = ''module.''") simp_all
  have "?f ` set items \<inter> fst ` set (acc @ [(?k, v)]) = {}"
    using Cons.prems(2) notin by auto
  from Cons.IH [OF d this] step x show ?case by simp
qed

lemma remove_module_prefix_wrapped:
  assumes "distinct (map fst sd)"
  shows "remove_module_prefix (map (\<lambda>(k, v). (''module.'' @ k, v)) sd) = sd"
proof -
  let ?f = "\<lambda>(k, v :: 'a). if take 7 k = ''module.'' then drop 7 k else k"
  let ?w = "map (\<lambda>(k, v). (''module.'' @ k, v)) sd"
  have m: "map ?f ?w = map fst sd" by (induction sd) auto
  have "distinct (map ?f ?w)" unfolding m by (rule assms)
  from remove_prefix_loop_fresh [OF this, of "[]"]
  have "remove_module_prefix ?w
          = map (\<lambda>(k, v). (if take 7 k = ''module.'' then drop 7 k else k, v)) ?w"
    by (simp add: remove_module_prefix_def)
  also have "\<dots> = sd" by (induction sd) auto
  finally show ?thesis .
qed

lemma remove_module_prefix_plain:
  assumes "distinct (map fst sd)" "\<forall>k\<in>fst ` set sd. take 7 k \<noteq> ''module.''"
  shows "remove_module_prefix sd = sd"
proof -
  let ?f = "\<lambda>(k, v :: 'a). if take 7 k = ''module.'' then drop 7 k else k"
  have m: "map ?f sd = map fst sd" using assms(2) by (induction sd) auto
  have "distinct (map ?f sd)" unfolding m by (rule assms(1))
  from remove_prefix_loop_fresh [OF this, of "[]"]
  have "remove_module_prefix sd
          = map (\<lambda>(k, v). (if take 7 k = ''module.'' then drop 7 k else k, v)) sd"
    by (simp add: remove_module_prefix_def)
  also have "\<dots> = sd" using assms(2) by (induction sd) auto
  finally show ?thesis .
qed

lemma load_component_frame:
  assumes "load_component k state (self, out) = Inr (self', out')" "k' \<noteq> k"
  shows "map_of self' k' = map_of self k'"
  using assms
  by (auto simp: load_component_def update_conv' split: option.splits attr.splits blob.splits
      sum.splits if_splits)

lemma load_component_out:
  assumes "load_component k state (self, out) = Inr (self', out')"
  shows "\<exists>rest. out' = out @ rest"
  using assms
  by (auto simp: load_component_def split: option.splits attr.splits blob.splits
      sum.splits if_splits)

lemma load_component_plain:
  assumes "load_component k state (self, out) = Inr (self', out')" "map_of self k' = Some (Plain v)"
  shows "map_of self' k' = Some (Plain v)"
proof (cases "k' = k")
  case True
  then show ?thesis using assms by (simp add: load_component_def)
next
  case False
  then show ?thesis using load_component_frame [OF assms(1) False] assms(2) by simp
qed

lemma load_component_other:
  assumes "k \<noteq> ''ema''"
  shows "\<exists>y. load_component k state x = Inr y"
  using assms
  by (cases x) (auto simp: load_component_def split: option.splits attr.splits)

lemma load_component_own:
  assumes "k \<noteq> ''ema''" "map_of self k = Some (Comp w s)"
  shows "load_component k state (self, out) =
           (case map_of state k of
              Some b \<Rightarrow> Inr (AList.update k (Comp w b) self, out @ [''Load '' @ k @ ''.state_dict''])
            | None \<Rightarrow> Inr (self, out @ [''Not load '' @ k @ ''.state_dict'']))"
  using assms by (simp add: load_component_def split: option.splits)

lemma load_components_frame:
  "load_components ks state (self, out) = Inr (self', out') \<Longrightarrow> k \<notin> set ks \<Longrightarrow>
   map_of self' k = map_of self k"
proof (induction ks arbitrary: self out)
  case Nil
  then show ?case by simp
next
  case (Cons a ks)
  from Cons.prems(1) obtain s1 o1 where
    1: "load_component a state (self, out) = Inr (s1, o1)"
       "load_components ks state (s1, o1) = Inr (self', out')"
    by (auto split: sum.splits)
  from Cons.prems(2) have "k \<noteq> a" "k \<notin> set ks" by auto
  with Cons.IH [OF 1(2)] load_component_frame [OF 1(1)] show ?case by simp
qed

lemma load_components_out:
  "load_components ks state (self, out) = Inr (self', out') \<Longrightarrow> \<exists>rest. out' = out @ rest"
proof (induction ks arbitrary: self out)
  case Nil
  then show ?case by simp
next
  case (Cons a ks)
  from Cons.prems(1) obtain s1 o1 where
    1: "load_component a state (self, out) = Inr (s1, o1)"
       "load_components ks state (s1, o1) = Inr (self', out')"
    by (auto split: sum.splits)
  from load_component_out [OF 1(1)] Cons.IH [OF 1(2)] show ?case by auto
qed

lemma load_components_plain:
  "load_components ks state (self, out) = Inr (self', out') \<Longrightarrow>
   map_of self k = Some (Plain v) \<Longrightarrow> map_of self' k = Some (Plain v)"
proof (induction ks arbitrary: self out)
  case Nil
  then show ?case by simp
next
  case (Cons a ks)
  from Cons.prems(1) obtain s1 o1 where
    1: "load_component a state (self, out) = Inr (s1, o1)"
       "load_components ks state (s1, o1) = Inr (self', out')"
    by (auto split: sum.splits)
  from load_component_plain [OF 1(1) Cons.prems(2)] Cons.IH [OF 1(2)] show ?case by simp
qed

lemma load_components_append:
  "load_components (ks1 @ ks2) state x =
     (case load_components ks1 state x of
        Inl e \<Rightarrow> Inl e
      | Inr y \<Rightarrow> load_components ks2 state y)"
  by (induction ks1 arbitrary: x) (auto split: sum.splits)

lemma load_components_total:
  "''ema'' \<notin> set ks \<Longrightarrow> \<exists>y. load_components ks state x = Inr y"
proof (induction ks arbitrary: x)
  case Nil
  then show ?case by simp
next
  case (Cons a ks)
  then have "a \<noteq> ''ema''" and r: "''ema'' \<notin> set ks" by auto
  from load_component_other [OF this(1), of state x] obtain y where
    "load_component a state x = Inr y" by blast
  with Cons.IH [OF r, of y] show ?case by simp
qed

lemma load_components_own:
  "load_components ks state (self, out) = Inr (self', out') \<Longrightarrow> distinct ks \<Longrightarrow> k \<in> set ks \<Longrightarrow>
   k \<noteq> ''ema'' \<Longrightarrow> map_of self k = Some (Comp w s) \<Longrightarrow>
   map_of self' k = Some (case map_of state k of Some b \<Rightarrow> Comp w b | None \<Rightarrow> Comp w s) \<and>
   (map_of state k = None \<longrightarrow> ''Not load '' @ k @ ''.state_dict'' \<in> set out')"
proof (induction ks arbitrary: self out)
  case Nil
  then show ?case by simp
next
  case (Cons a ks)
  from Cons.prems(1) obtain s1 o1 where
    1: "load_component a state (self, out) = Inr (s1, o1)"
       "load_components ks state (s1, o1) = Inr (self', out')"
    by (auto split: sum.splits)
  from Cons.prems(2) have d: "distinct ks" and a: "a \<notin> set ks" by auto
  show ?case
  proof (cases "k = a")
    case True
    from load_component_own [OF Cons.prems(4,5), of state out] 1(1) True
    have own: "s1 = (case map_of state k of Some b \<Rightarrow> AList.update k (Comp w b) self | None \<Rightarrow> self)"
      "map_of state k = None \<longrightarrow> ''Not load '' @ k @ ''.state_dict'' \<in> set o1"
      by (auto split: option.splits)
    from own(1) Cons.prems(5)
    have "map_of s1 k = Some (case map_of state k of Some b \<Rightarrow> Comp w b | None \<Rightarrow> Comp w s)"
      by (auto simp: update_conv' split: option.splits)
    moreover have "map_of self' k = map_of s1 k"
      using load_components_frame [OF 1(2)] a True by simp
    moreover obtain rest where "out' = o1 @ rest"
      using load_components_out [OF 1(2)] by blast
    ultimately show ?thesis using own(2) by auto
  next
    case False
    with Cons.prems(3) have kin: "k \<in> set ks" by simp
    have "map_of s1 k = Some (Comp w s)"
      using load_component_frame [OF 1(1) False] Cons.prems(5) by simp
    from Cons.IH [OF 1(2) d kin Cons.prems(4) this] show ?thesis .
  qed
qed


lemma keys_split_at:
  assumes "k \<in> set ks" "distinct ks"
  shows "ks = takeWhile (\<lambda>x. x \<noteq> k) ks @ k # tl (dropWhile (\<lambda>x. x \<noteq> k) ks) \<and>
         k \<notin> set (takeWhile (\<lambda>x. x \<noteq> k) ks) \<and>
         k \<notin> set (tl (dropWhile (\<lambda>x. x \<noteq> k) ks))"
proof -
  let ?b = "takeWhile (\<lambda>x. x \<noteq> k) ks" and ?d = "dropWhile (\<lambda>x. x \<noteq> k) ks"
  have ne: "?d \<noteq> []" using assms(1) by (simp add: dropWhile_eq_Nil_conv)
  then have hd: "hd ?d = k" using hd_dropWhile [of "\<lambda>x. x \<noteq> k" ks] by simp
  with ne have d: "?d = k # tl ?d" by (metis list.collapse)
  have ks: "ks = ?b @ ?d" by simp
  then have 1: "ks = ?b @ k # tl ?d" using d by simp
  have 2: "k \<notin> set ?b" by (auto dest: set_takeWhileD)
  have "distinct (?b @ k # tl ?d)" using assms(2) 1 by simp
  then have 3: "k \<notin> set (tl ?d)" by simp
  from 1 2 3 show ?thesis by blast
qed

lemma load_components_ema_fallback:
  assumes d: "distinct (map fst self)"
    and ne: "map_of state ''ema'' = None"
    and e: "map_of self ''ema'' = Some (Comp w e)"
    and m: "map_of self ''model'' = Some (Comp mw ms)"
    and s: "stripped_state (state_dict_of mw
              (if ''model'' \<in> set (takeWhile (\<lambda>k. k \<noteq> ''ema'') (map fst self))
               then (case map_of state ''model'' of Some b \<Rightarrow> b | None \<Rightarrow> ms)
               else ms)) = Inr msd"
  shows "\<exists>self' out'. load_components (map fst self) state (self, out) = Inr (self', out') \<and>
           map_of self' ''ema'' = Some (Comp w (Dict [(''module'', msd)])) \<and>
           ''Load ema.state_dict from model.state_dict'' \<in> set out'"
proof -
  let ?ks = "map fst self"
  let ?b = "takeWhile (\<lambda>x. x \<noteq> ''ema'') ?ks" and ?a = "tl (dropWhile (\<lambda>x. x \<noteq> ''ema'') ?ks)"
  let ?then = "if ''model'' \<in> set ?b
               then (case map_of state ''model'' of Some b \<Rightarrow> b | None \<Rightarrow> ms) else ms"
  have "''ema'' \<in> set ?ks" using e by (metis map_of_eq_None_iff option.distinct(1) set_map)
  from keys_split_at [OF this d]
  have ks: "?ks = ?b @ ''ema'' # ?a" and nb: "''ema'' \<notin> set ?b" and na: "''ema'' \<notin> set ?a"
    by blast+
  have db: "distinct ?b" using d by (rule distinct_takeWhile)
  from load_components_total [OF nb, of state "(self, out)"] obtain mid om where
    mid: "load_components ?b state (self, out) = Inr (mid, om)" by (metis surj_pair)
  have me: "map_of mid ''ema'' = Some (Comp w e)"
    using load_components_frame [OF mid nb] e by simp
  have mm: "map_of mid ''model'' = Some (Comp mw ?then)"
  proof (cases "''model'' \<in> set ?b")
    case True
    from load_components_own [OF mid db True _ m]
    show ?thesis using True by (auto split: option.splits)
  next
    case False
    then show ?thesis using load_components_frame [OF mid False] m by simp
  qed
  let ?mid' = "AList.update ''ema'' (Comp w (Dict [(''module'', msd)])) mid"
  let ?om' = "om @ [''Load ema.state_dict from model.state_dict'']"
  have step: "load_component ''ema'' state (mid, om) = Inr (?mid', ?om')"
    using ne me mm s by (simp add: load_component_def)
  from load_components_total [OF na, of state "(?mid', ?om')"] obtain self' out' where
    fin: "load_components ?a state (?mid', ?om') = Inr (self', out')" by (metis surj_pair)
  have "load_components (?b @ ''ema'' # ?a) state (self, out) = Inr (self', out')"
    using mid step fin by (simp add: load_components_append)
  then have whole: "load_components ?ks state (self, out) = Inr (self', out')"
    using ks by simp
  have "map_of self' ''ema'' = map_of ?mid' ''ema''"
    using load_components_frame [OF fin na] .
  then have ema: "map_of self' ''ema'' = Some (Comp w (Dict [(''module'', msd)]))"
    by (simp add: update_conv')
  obtain rest where "out' = ?om' @ rest" using load_components_out [OF fin] by blast
  then have "''Load ema.state_dict from model.state_dict'' \<in> set out'" by simp
  with whole ema show ?thesis by blast
qed


lemma load_components_restore:
  assumes d: "distinct (map fst self)"
    and ne: "map_of state ''ema'' = None"
    and e: "map_of self ''ema'' = Some (Comp w e)"
    and m: "map_of self ''model'' = Some (Comp mw ms)"
    and s: "stripped_state (state_dict_of mw
              (if ''model'' \<in> set (takeWhile (\<lambda>k. k \<noteq> ''ema'') (map fst self))
               then (case map_of state ''model'' of Some b \<Rightarrow> b | None \<Rightarrow> ms)
               else ms)) = Inr msd"
  shows "\<exists>self' out'. load_components (map fst self) state (self, out) = Inr (self', out') \<and>
           map_of self' ''ema'' = Some (Comp w (Dict [(''module'', msd)])) \<and>
           ''Load ema.state_dict from model.state_dict'' \<in> set out' \<and>
           (\<forall>k w' s. k \<noteq> ''ema'' \<and> map_of self k = Some (Comp w' s) \<and> map_of state k = None \<longrightarrow>
              map_of self' k = Some (Comp w' s) \<and> ''Not load '' @ k @ ''.state_dict'' \<in> set out') \<and>
           (\<exists>rest. out' = out @ rest) \<and>
           (\<forall>k v. map_of self k = Some (Plain v) \<longrightarrow> map_of self' k = Some (Plain v))"
proof -
  from load_components_ema_fallback [OF d ne e m s, of out] obtain self' out' where
    r: "load_components (map fst self) state (self, out) = Inr (self', out')"
       "map_of self' ''ema'' = Some (Comp w (Dict [(''module'', msd)]))"
       "''Load ema.state_dict from model.state_dict'' \<in> set out'"
    by blast
  have other: "map_of self' k = Some (Comp w' s) \<and> ''Not load '' @ k @ ''.state_dict'' \<in> set out'"
    if "k \<noteq> ''ema''" "map_of self k = Some (Comp w' s)" "map_of state k = None" for k w' s
  proof -
    have "k \<in> set (map fst self)"
      using that(2) by (metis map_of_eq_None_iff option.distinct(1) set_map)
    from load_components_own [OF r(1) d this that(1,2)] that(3) show ?thesis by simp
  qed
  have plain: "map_of self' k = Some (Plain v)" if "map_of self k = Some (Plain v)" for k v
    using load_components_plain [OF r(1) that] .
  have c4: "\<forall>k w' s. k \<noteq> ''ema'' \<and> map_of self k = Some (Comp w' s) \<and> map_of state k = None \<longrightarrow>
              map_of self' k = Some (Comp w' s) \<and> ''Not load '' @ k @ ''.state_dict'' \<in> set out'"
  proof (intro allI impI)
    fix k w' s
    assume "k \<noteq> ''ema'' \<and> map_of self k = Some (Comp w' s) \<and> map_of state k = None"
    then have "k \<noteq> ''ema''" "map_of self k = Some (Comp w' s)" "map_of state k = None"
      by simp_all
    then show "map_of self' k = Some (Comp w' s) \<and> ''Not load '' @ k @ ''.state_dict'' \<in> set out'"
      by (rule other)
  qed
  have c5: "\<exists>rest. out' = out @ rest" using load_components_out [OF r(1)] .
  have c6: "\<forall>k v. map_of self k = Some (Plain v) \<longrightarrow> map_of self' k = Some (Plain v)"
    using plain by simp
  show ?thesis
    apply (rule exI [of _ self'])
    apply (rule exI [of _ out'])
    apply (intro conjI)
         apply (rule r(1) r(2) r(3) c4 c5 c6)+
    done
qed

lemma takeWhile_update_other:
  assumes "k \<in> fst ` set al" "k \<noteq> j"
  shows "takeWhile (\<lambda>x. x \<noteq> k) (map fst (AList.update j v al))
           = takeWhile (\<lambda>x. x \<noteq> k) (map fst al)"
proof (cases "j \<in> set (map fst al)")
  case True
  then show ?thesis by (simp add: update_keys)
next
  case False
  have "k \<in> set (map fst al)" using assms(1) by simp
  from takeWhile_append1 [OF this, of "\<lambda>x. x \<noteq> k" "[j]"]
  have "takeWhile (\<lambda>x. x \<noteq> k) (map fst al @ [j]) = takeWhile (\<lambda>x. x \<noteq> k) (map fst al)"
    by simp
  with False show ?thesis by (simp add: update_keys)
qed

text \<open>
  Claim C8, as amended. The checkpoint has no \<open>ema\<close> entry; the solver has an EMA
  component and a model component. Let \<open>msd\<close> be the model's \<open>state_dict()\<close> at the
  moment the loop reaches \<open>ema\<close> (the state from the checkpoint if \<open>model\<close> comes earlier
  in \<open>self.__dict__\<close> and is in the checkpoint, the state it had otherwise), with the
  prefix \<open>module.\<close> removed from every key that has it. Then \<open>load_state_dict\<close> returns,
  and afterwards the EMA component holds the single-entry blob \<open>{'module': msd}\<close>. When
  the model is wrapped, or is bare and has no key that starts with \<open>module.\<close>, \<open>msd\<close> is
  the model's own parameter mapping; for a bare model with such a key nothing more is
  said than that the EMA holds \<open>msd\<close>. Every other component absent from the checkpoint
  keeps its state and is reported by a \<open>Not load\<close> line, and \<open>last_epoch\<close>, when
  present, is set and reported first.
\<close>

theorem load_state_dict_ema_fallback:
  assumes "distinct (map fst self)"
    and "map_of state ''ema'' = None"
    and "map_of self ''ema'' = Some (Comp w e)"
    and "map_of self ''model'' = Some (Comp mw ms)"
    and "stripped_state (state_dict_of mw
              (if ''model'' \<in> set (takeWhile (\<lambda>k. k \<noteq> ''ema'') (map fst self))
               then (case map_of state ''model'' of Some b \<Rightarrow> b | None \<Rightarrow> ms)
               else ms)) = Inr msd"
  shows "\<exists>self' out. load_state_dict self state = Inr (self', out) \<and>
           map_of self' ''ema'' = Some (Comp w (Dict [(''module'', msd)])) \<and>
           ''Load ema.state_dict from model.state_dict'' \<in> set out \<and>
           (\<forall>sd. (if ''model'' \<in> set (takeWhile (\<lambda>k. k \<noteq> ''ema'') (map fst self))
                  then (case map_of state ''model'' of Some b \<Rightarrow> b | None \<Rightarrow> ms)
                  else ms) = Params sd \<and>
                 distinct (map fst sd) \<and> (mw \<or> (\<forall>k\<in>fst ` set sd. take 7 k \<noteq> ''module.'')) \<longrightarrow>
                 msd = Params sd) \<and>
           (\<forall>k w' s. k \<noteq> ''ema'' \<and> map_of self k = Some (Comp w' s) \<and> map_of state k = None \<longrightarrow>
              map_of self' k = Some (Comp w' s) \<and> ''Not load '' @ k @ ''.state_dict'' \<in> set out) \<and>
           (\<forall>v. map_of state ''last_epoch'' = Some v \<longrightarrow>
              map_of self' ''last_epoch'' = Some (Plain v) \<and> hd out = ''Load last_epoch'')"
proof -
  let ?then = "if ''model'' \<in> set (takeWhile (\<lambda>k. k \<noteq> ''ema'') (map fst self))
               then (case map_of state ''model'' of Some b \<Rightarrow> b | None \<Rightarrow> ms) else ms"
  have eq: "msd = Params sd"
    if t: "?then = Params sd" "distinct (map fst sd)"
       "mw \<or> (\<forall>k\<in>fst ` set sd. take 7 k \<noteq> ''module.'')" for sd
  proof -
    have a5: "stripped_state (state_dict_of mw (Params sd)) = Inr msd"
      using assms(5) by (simp only: t(1))
    show ?thesis
    proof (cases mw)
      case True
      then have "mw = True" by simp
      with a5 have "stripped_state (state_dict_of True (Params sd)) = Inr msd" by (simp only:)
      then have "Inr (Params sd) = (Inr msd :: error + 'a blob)"
        by (simp only: state_dict_of.simps stripped_state.simps remove_module_prefix_wrapped [OF t(2)])
      then show ?thesis by simp
    next
      case False
      then have "mw = False" by simp
      with a5 have "stripped_state (state_dict_of False (Params sd)) = Inr msd" by (simp only:)
      moreover have "\<forall>k\<in>fst ` set sd. take 7 k \<noteq> ''module.''" using False t(3) by simp
      ultimately have "Inr (Params sd) = (Inr msd :: error + 'a blob)"
        by (simp only: state_dict_of.simps stripped_state.simps
            remove_module_prefix_plain [OF t(2)])
      then show ?thesis by simp
    qed
  qed
  then have c4: "\<forall>sd. ?then = Params sd \<and> distinct (map fst sd) \<and>
                  (mw \<or> (\<forall>k\<in>fst ` set sd. take 7 k \<noteq> ''module.'')) \<longrightarrow> msd = Params sd"
    by blast
  show ?thesis
  proof (cases "map_of state ''last_epoch''")
    case None
    from load_components_restore [OF assms, of "[]"] obtain self' out where
      r: "load_components (map fst self) state (self, []) = Inr (self', out)"
         "map_of self' ''ema'' = Some (Comp w (Dict [(''module'', msd)]))"
         "''Load ema.state_dict from model.state_dict'' \<in> set out"
         "\<forall>k w' s. k \<noteq> ''ema'' \<and> map_of self k = Some (Comp w' s) \<and> map_of state k = None \<longrightarrow>
              map_of self' k = Some (Comp w' s) \<and> ''Not load '' @ k @ ''.state_dict'' \<in> set out"
      by blast
    have l: "load_state_dict self state = Inr (self', out)"
      using None r(1) by (simp add: load_state_dict_def)
    have c6: "\<forall>v. map_of state ''last_epoch'' = Some v \<longrightarrow>
              map_of self' ''last_epoch'' = Some (Plain v) \<and> hd out = ''Load last_epoch''"
      using None by simp
    show ?thesis
      apply (rule exI [of _ self'])
      apply (rule exI [of _ out])
      apply (intro conjI)
           apply (rule l r(2) r(3) c4 r(4) c6)+
      done
  next
    case (Some v)
    let ?self1 = "AList.update ''last_epoch'' (Plain v) self"
    have d1: "distinct (map fst ?self1)" using assms(1) by (rule distinct_update)
    have e1: "map_of ?self1 ''ema'' = Some (Comp w e)"
      using assms(3) by (simp add: update_conv')
    have m1: "map_of ?self1 ''model'' = Some (Comp mw ms)"
      using assms(4) by (simp add: update_conv')
    have "''ema'' \<in> fst ` set self"
      using assms(3) by (metis map_of_eq_None_iff option.distinct(1))
    then have tw: "takeWhile (\<lambda>k. k \<noteq> ''ema'') (map fst ?self1)
                     = takeWhile (\<lambda>k. k \<noteq> ''ema'') (map fst self)"
      by (rule takeWhile_update_other) simp
    have s1: "stripped_state (state_dict_of mw
              (if ''model'' \<in> set (takeWhile (\<lambda>k. k \<noteq> ''ema'') (map fst ?self1))
               then (case map_of state ''model'' of Some b \<Rightarrow> b | None \<Rightarrow> ms)
               else ms)) = Inr msd"
      using assms(5) by (simp only: tw)
    from load_components_restore [OF d1 assms(2) e1 m1 s1, of "[''Load last_epoch'']"]
    obtain self' out where
      R: "load_components (map fst ?self1) state (?self1, [''Load last_epoch'']) = Inr (self', out) \<and>
         map_of self' ''ema'' = Some (Comp w (Dict [(''module'', msd)])) \<and>
         ''Load ema.state_dict from model.state_dict'' \<in> set out \<and>
         (\<forall>k w' s. k \<noteq> ''ema'' \<and> map_of ?self1 k = Some (Comp w' s) \<and> map_of state k = None \<longrightarrow>
              map_of self' k = Some (Comp w' s) \<and> ''Not load '' @ k @ ''.state_dict'' \<in> set out) \<and>
         (\<exists>rest. out = [''Load last_epoch''] @ rest) \<and>
         (\<forall>k v. map_of ?self1 k = Some (Plain v) \<longrightarrow> map_of self' k = Some (Plain v))"
      by (elim exE) (rule that, assumption)
    note r = R [THEN conjunct1] R [THEN conjunct2, THEN conjunct1]
      R [THEN conjunct2, THEN conjunct2, THEN conjunct1]
      R [THEN conjunct2, THEN conjunct2, THEN conjunct2, THEN conjunct1]
      R [THEN conjunct2, THEN conjunct2, THEN conjunct2, THEN conjunct2, THEN conjunct1]
      R [THEN conjunct2, THEN conjunct2, THEN conjunct2, THEN conjunct2, THEN conjunct2]
    have l: "load_state_dict self state = Inr (self', out)"
      using Some r(1) by (simp add: load_state_dict_def)
    have other: "map_of self' k = Some (Comp w' s) \<and> ''Not load '' @ k @ ''.state_dict'' \<in> set out"
      if "k \<noteq> ''ema''" "map_of self k = Some (Comp w' s)" "map_of state k = None" for k w' s
    proof -
      have "k \<noteq> ''last_epoch''" using that(3) Some by auto
      then have "map_of ?self1 k = Some (Comp w' s)" using that(2) by (simp add: update_conv')
      with that(1,3) have "k \<noteq> ''ema'' \<and> map_of ?self1 k = Some (Comp w' s) \<and> map_of state k = None"
        by simp
      with r(4) [THEN spec, THEN spec, THEN spec, of k w' s] show ?thesis by (rule mp)
    qed
    have "map_of ?self1 ''last_epoch'' = Some (Plain v)" by (simp add: update_conv')
    with r(6) [THEN spec, THEN spec, of "''last_epoch''" v]
    have le: "map_of self' ''last_epoch'' = Some (Plain v)" by (rule mp)
    from r(5) obtain rest where "out = [''Load last_epoch''] @ rest" by (elim exE)
    then have hd: "hd out = ''Load last_epoch''" by simp
    have c5: "\<forall>k w' s. k \<noteq> ''ema'' \<and> map_of self k = Some (Comp w' s) \<and> map_of state k = None \<longrightarrow>
              map_of self' k = Some (Comp w' s) \<and> ''Not load '' @ k @ ''.state_dict'' \<in> set out"
    proof (intro allI impI)
      fix k w' s
      assume "k \<noteq> ''ema'' \<and> map_of self k = Some (Comp w' s) \<and> map_of state k = None"
      then have "k \<noteq> ''ema''" "map_of self k = Some (Comp w' s)" "map_of state k = None"
        by simp_all
      then show "map_of self' k = Some (Comp w' s) \<and> ''Not load '' @ k @ ''.state_dict'' \<in> set out"
        by (rule other)
    qed
    have c6: "\<forall>v. map_of state ''last_epoch'' = Some v \<longrightarrow>
              map_of self' ''last_epoch'' = Some (Plain v) \<and> hd out = ''Load last_epoch''"
      using Some le hd by simp
    show ?thesis
      apply (rule exI [of _ self'])
      apply (rule exI [of _ out])
      apply (intro conjI)
           apply (rule l r(2) r(3) c4 c5 c6)+
      done
  qed
qed


text \<open>
  C8 at a solver with a wrapped model, a criterion and an EMA component, restored from a
  checkpoint that holds \<open>last_epoch\<close> and \<open>model\<close> only.
\<close>

theorem load_state_dict_ema_fallback_witness:
  "distinct (map fst
     [(''cfg'', Plain NoneV),
      (''model'', Comp True (Params [(''w'', Tensor [1] [1 :: nat])])),
      (''criterion'', Comp False (Params [])),
      (''ema'', Comp False (Dict [(''module'', Params [(''w'', Tensor [1] [0])]), (''updates'', Num 0)])),
      (''last_epoch'', Plain (Num (- 1)))]) \<and>
   map_of [(''date'', NoneV), (''last_epoch'', Num 5),
           (''model'', Params [(''w'', Tensor [1] [2 :: nat])])] ''ema'' = None \<and>
   (\<exists>self' out.
      load_state_dict
        [(''cfg'', Plain NoneV),
         (''model'', Comp True (Params [(''w'', Tensor [1] [1 :: nat])])),
         (''criterion'', Comp False (Params [])),
         (''ema'', Comp False (Dict [(''module'', Params [(''w'', Tensor [1] [0])]), (''updates'', Num 0)])),
         (''last_epoch'', Plain (Num (- 1)))]
        [(''date'', NoneV), (''last_epoch'', Num 5), (''model'', Params [(''w'', Tensor [1] [2])])]
        = Inr (self', out) \<and>
      map_of self' ''ema'' = Some (Comp False (Dict [(''module'', Params [(''w'', Tensor [1] [2])])])))"
proof -
  let ?self = "[(''cfg'', Plain NoneV),
      (''model'', Comp True (Params [(''w'', Tensor [1] [1 :: nat])])),
      (''criterion'', Comp False (Params [])),
      (''ema'', Comp False (Dict [(''module'', Params [(''w'', Tensor [1] [0])]), (''updates'', Num 0)])),
      (''last_epoch'', Plain (Num (- 1)))]"
  let ?state = "[(''date'', NoneV), (''last_epoch'', Num 5),
           (''model'', Params [(''w'', Tensor [1] [2 :: nat])])]"
  have h1: "distinct (map fst ?self)" by simp
  have h2: "map_of ?state ''ema'' = None" by simp
  have h3: "map_of ?self ''ema'' =
      Some (Comp False (Dict [(''module'', Params [(''w'', Tensor [1] [0])]), (''updates'', Num 0)]))"
    by simp
  have h4: "map_of ?self ''model'' = Some (Comp True (Params [(''w'', Tensor [1] [1])]))"
    by simp
  have h5: "stripped_state (state_dict_of True
              (if ''model'' \<in> set (takeWhile (\<lambda>k. k \<noteq> ''ema'') (map fst ?self))
               then (case map_of ?state ''model'' of Some b \<Rightarrow> b
                     | None \<Rightarrow> Params [(''w'', Tensor [1] [1])])
               else Params [(''w'', Tensor [1] [1])])) = Inr (Params [(''w'', Tensor [1] [2])])"
    by (simp add: remove_module_prefix_def)
  from load_state_dict_ema_fallback [OF h1 h2 h3 h4 h5]
  obtain self' out where
    "load_state_dict ?self ?state = Inr (self', out)"
    "map_of self' ''ema'' = Some (Comp False (Dict [(''module'', Params [(''w'', Tensor [1] [2])])]))"
    by (elim exE conjE) (rule that, assumption+)
  then have "\<exists>self' out. load_state_dict ?self ?state = Inr (self', out) \<and>
      map_of self' ''ema'' = Some (Comp False (Dict [(''module'', Params [(''w'', Tensor [1] [2])])]))"
    by (intro exI conjI)
  with h1 h2 show ?thesis by (intro conjI)
qed


text \<open>
  A bare model that has a parameter named \<open>module.w\<close> of its own: the fallback takes
  the seven characters off that key too, so the EMA component ends with the key \<open>w\<close>
  and its parameter mapping is not the model's.
\<close>

theorem load_state_dict_ema_fallback_counterexample:
  "load_state_dict
     [(''model'', Comp False (Params [(''module.w'', Tensor [1] [1 :: nat])])),
      (''ema'', Comp False (Dict [(''module'', Params [(''module.w'', Tensor [1] [0])])]))]
     [(''last_epoch'', Num 5)]
   = Inr ([(''model'', Comp False (Params [(''module.w'', Tensor [1] [1])])),
           (''ema'', Comp False (Dict [(''module'', Params [(''w'', Tensor [1] [1])])])),
           (''last_epoch'', Plain (Num 5))],
          [''Load last_epoch'', ''Not load model.state_dict'',
           ''Load ema.state_dict from model.state_dict'']) \<and>
   Params [(''w'', Tensor [1] [1 :: nat])] \<noteq> Params [(''module.w'', Tensor [1] [1])]"
  by (simp add: load_state_dict_def load_component_def remove_module_prefix_def)

end
